theory Spec2Isabelle
  imports Main "HOL-Library.Word" "HOL-Library.AList"
begin

unbundle bit_operations_syntax

section \<open>Python values, LDAP messages and exceptions\<close>

text \<open>
  Python's \<open>bytes\<close> is a list of 8-bit values, Python's \<open>int\<close> is unbounded and is
  modelled by \<open>int\<close> (the bit operations of HOL on \<open>int\<close> are the two's-complement
  ones of Python, also on negative numbers).
\<close>

type_synonym byte = "8 word"

text \<open>
  The classes of \<open>pureldap\<close> are used by \<open>ldapclient.py\<close> through a few attributes
  only; the types below hold these attributes. A request carries its class attribute
  \<open>needs_answer\<close>. The responses that the client inspects are the bind response
  (\<open>resultCode\<close>, \<open>matchedDN\<close>, \<open>errorMessage\<close>, \<open>referral\<close>, \<open>serverSaslCreds\<close>) and the
  extended response (\<open>resultCode\<close>, \<open>matchedDN\<close>, \<open>errorMessage\<close>, \<open>referral\<close>,
  \<open>responseName\<close>, \<open>response\<close>); every other response is opaque.
\<close>

record ldap_request =
  rq_name :: string
  needs_answer :: bool

datatype ldap_response =
    LDAPBindResponse int string string "string list option" "string option"
  | LDAPExtendedResponse int string string "string list option" "string option" "string option"
  | LDAPOtherResponse string

datatype protocol_op =
    Request ldap_request
  | Response ldap_response

text \<open>\<open>isinstance(v, pureldap.LDAPProtocolResponse)\<close>\<close>

fun is_LDAPProtocolResponse :: "protocol_op \<Rightarrow> bool" where
  "is_LDAPProtocolResponse (Response r) = True"
| "is_LDAPProtocolResponse (Request r) = False"

text \<open>A control is the 3-tuple (OID, criticality, value); \<open>controls\<close> may be \<open>None\<close>.\<close>

type_synonym control = "string \<times> bool option \<times> string option"

record ldap_message =
  msg_id :: int
  msg_value :: protocol_op
  msg_controls :: "control list option"

text \<open>
  The positional and keyword arguments kept with a handler: \<open>send\<close> stores the list
  \<open>[]\<close> and the dict \<open>{}\<close>, \<open>send_multiResponse\<close> stores the tuple \<open>args\<close> and the dict
  \<open>kwargs\<close>, and an entry without handler may store \<open>None\<close>. Python tells a tuple from a
  list (\<open>[] == ()\<close> is false), so the model does too.
\<close>

type_synonym pyval = string

datatype pyargs = PyTuple "pyval list" | PyList "pyval list"

type_synonym pykwargs = "(string \<times> pyval) list"

text \<open>
  What a handler is called with: \<open>handler(msg.value, *args, **kwargs)\<close> or
  \<open>handler(msg.value, msg.controls, *args, **kwargs)\<close>. A handler is a function to the
  boolean it returns ("whether this was the final response").
\<close>

datatype hargs =
    Args1 protocol_op
  | Args2 protocol_op "control list option"

type_synonym handler = "hargs \<Rightarrow> pyargs \<Rightarrow> pykwargs \<Rightarrow> bool"

text \<open>
  A \<open>Deferred\<close> is an object with an identity: the model names it by a number, given
  out by the counter \<open>next_d\<close> of the client state when \<open>defer.Deferred()\<close> is called.
  An entry of \<open>onwire\<close> is the 5-tuple \<open>(d, return_controls, handler, args, kwargs)\<close>.
\<close>

type_synonym deferred = nat

type_synonym entry = "deferred \<times> bool \<times> handler option \<times> pyargs option \<times> pykwargs option"

text \<open>
  The dict \<open>onwire\<close> is an association list in insertion order (the order decides what
  \<open>popitem\<close> returns): \<open>d[k] = v\<close> is \<open>AList.update\<close>, \<open>k in d\<close> is
  \<open>map_of d k \<noteq> None\<close>, \<open>del d[k]\<close> is \<open>AList.delete\<close> (a \<open>KeyError\<close> when the key is
  missing) and \<open>popitem\<close> takes the last pair.
\<close>

type_synonym onwire_dict = "(int \<times> entry) list"

text \<open>A \<open>twisted.python.failure.Failure\<close> (the reason of a lost connection) and an SSL
  context factory are opaque.\<close>

type_synonym failure = string

type_synonym ctx = string

text \<open>Every exception the modelled code can raise is a constructor of \<open>pyerr\<close>.
  \<open>LDAPResultError code message\<close> stands for the exception object that
  \<open>ldaperrors.get(code, message)\<close> builds.\<close>

datatype pyerr =
    AssertionError
  | StructError
  | KeyError int
  | AlreadyCalledError
  | BERExceptionInsufficientData
  | BERDecodeFailure string
  | LDAPClientConnectionLostException
  | LDAPStartTLSBusyError onwire_dict
  | LDAPStartTLSInvalidResponseName string
  | LDAPResultError int string
  | PacketError int
  | RadiusFailure string

section \<open>ldaptor/md4.py\<close>

subsection \<open>The helper functions and the round tables\<close>

definition F :: "int \<Rightarrow> int \<Rightarrow> int \<Rightarrow> int" where
  "F x y z = (x AND y) OR ((NOT x) AND z)"

definition G :: "int \<Rightarrow> int \<Rightarrow> int \<Rightarrow> int" where
  "G x y z = (x AND y) OR (x AND z) OR (y AND z)"

definition MASK_32 :: int where
  "MASK_32 = 2 ^ 32 - 1"

text \<open>A row of a round table is \<open>[a, b, c, d, k, s]\<close>: four indices into the state, the
  index of the message word and the rotation.\<close>

type_synonym round_row = "nat \<times> nat \<times> nat \<times> nat \<times> nat \<times> nat"

definition round1 :: "round_row list" where
  "round1 =
    [(0, 1, 2, 3, 0, 3), (3, 0, 1, 2, 1, 7), (2, 3, 0, 1, 2, 11), (1, 2, 3, 0, 3, 19),
     (0, 1, 2, 3, 4, 3), (3, 0, 1, 2, 5, 7), (2, 3, 0, 1, 6, 11), (1, 2, 3, 0, 7, 19),
     (0, 1, 2, 3, 8, 3), (3, 0, 1, 2, 9, 7), (2, 3, 0, 1, 10, 11), (1, 2, 3, 0, 11, 19),
     (0, 1, 2, 3, 12, 3), (3, 0, 1, 2, 13, 7), (2, 3, 0, 1, 14, 11), (1, 2, 3, 0, 15, 19)]"

definition round2 :: "round_row list" where
  "round2 =
    [(0, 1, 2, 3, 0, 3), (3, 0, 1, 2, 4, 5), (2, 3, 0, 1, 8, 9), (1, 2, 3, 0, 12, 13),
     (0, 1, 2, 3, 1, 3), (3, 0, 1, 2, 5, 5), (2, 3, 0, 1, 9, 9), (1, 2, 3, 0, 13, 13),
     (0, 1, 2, 3, 2, 3), (3, 0, 1, 2, 6, 5), (2, 3, 0, 1, 10, 9), (1, 2, 3, 0, 14, 13),
     (0, 1, 2, 3, 3, 3), (3, 0, 1, 2, 7, 5), (2, 3, 0, 1, 11, 9), (1, 2, 3, 0, 15, 13)]"

definition round3 :: "round_row list" where
  "round3 =
    [(0, 1, 2, 3, 0, 3), (3, 0, 1, 2, 8, 9), (2, 3, 0, 1, 4, 11), (1, 2, 3, 0, 12, 15),
     (0, 1, 2, 3, 2, 3), (3, 0, 1, 2, 10, 9), (2, 3, 0, 1, 6, 11), (1, 2, 3, 0, 14, 15),
     (0, 1, 2, 3, 1, 3), (3, 0, 1, 2, 9, 9), (2, 3, 0, 1, 5, 11), (1, 2, 3, 0, 13, 15),
     (0, 1, 2, 3, 3, 3), (3, 0, 1, 2, 11, 9), (2, 3, 0, 1, 7, 11), (1, 2, 3, 0, 15, 15)]"

subsection \<open>struct.pack and struct.unpack, little-endian unsigned 32-bit\<close>

text \<open>\<open>struct.unpack("<16I", block)\<close> raises \<open>struct.error\<close> unless the block has 64
  bytes; \<open>struct.pack("<nI", ...)\<close> raises it unless it gets \<open>n\<close> values, each in
  \<open>[0, 2^32)\<close>.\<close>

definition le32 :: "byte list \<Rightarrow> int" where
  "le32 bs = foldr (\<lambda>b acc. uint b + 256 * acc) bs 0"

definition unpack_16I :: "byte list \<Rightarrow> pyerr + int list" where
  "unpack_16I block =
     (if length block \<noteq> 64 then Inl StructError
      else Inr (map (\<lambda>k. le32 (take 4 (drop (4 * k) block))) [0..<16]))"

definition bytes_I :: "int \<Rightarrow> byte list" where
  "bytes_I x = map (\<lambda>k. word_of_int (drop_bit (8 * k) x)) [0..<4]"

definition in_range_I :: "int \<Rightarrow> bool" where
  "in_range_I x = (0 \<le> x \<and> x < 2 ^ 32)"

definition pack_I :: "nat \<Rightarrow> int list \<Rightarrow> pyerr + byte list" where
  "pack_I n xs =
     (if length xs = n \<and> list_all in_range_I xs
      then Inr (concat (map bytes_I xs)) else Inl StructError)"

subsection \<open>The md4 object\<close>

text \<open>The three attributes of the class: \<open>_count\<close>, \<open>_state\<close> and \<open>_buf\<close>.\<close>

record md4 =
  m_count :: int
  m_state :: "int list"
  m_buf :: "byte list"

text \<open>One step of a round: \<open>t = (state[a] + f(state[b], state[c], state[d]) + X[k] + c) & MASK_32\<close>,
  then \<open>state[a] = ((t << s) & MASK_32) + (t >> (32 - s))\<close>. The three rounds differ in the
  function \<open>f\<close> (\<open>F\<close>, \<open>G\<close>, and \<open>x ^ y ^ z\<close>, which is \<open>H\<close> below) and in the constant
  \<open>c\<close> (round 1 adds none: \<open>c = 0\<close>).\<close>

definition round_step ::
  "(int \<Rightarrow> int \<Rightarrow> int \<Rightarrow> int) \<Rightarrow> int \<Rightarrow> int list \<Rightarrow> int list \<Rightarrow> round_row \<Rightarrow> int list" where
  "round_step f c X state row =
     (case row of (a1, b1, c1, d1, k1, s1) \<Rightarrow>
        (let t = (state ! a1 + f (state ! b1) (state ! c1) (state ! d1) + X ! k1 + c) AND MASK_32
         in state[a1 := ((push_bit s1 t) AND MASK_32) + (drop_bit (32 - s1) t)]))"

definition H :: "int \<Rightarrow> int \<Rightarrow> int \<Rightarrow> int" where
  "H x y z = x XOR y XOR z"

definition add_back :: "int list \<Rightarrow> int list \<Rightarrow> int list" where
  "add_back orig state =
     foldl (\<lambda>orig i. orig[i := (orig ! i + state ! i) AND MASK_32]) orig [0..<4]"

definition process :: "md4 \<Rightarrow> byte list \<Rightarrow> pyerr + md4" where
  "process h block =
     (case unpack_16I block of
        Inl e \<Rightarrow> Inl e
      | Inr X \<Rightarrow>
          (let orig = m_state h;
               state = orig;
               state = foldl (round_step F 0 X) state round1;
               state = foldl (round_step G 0x5a827999 X) state round2;
               state = foldl (round_step H 0x6ed9eba1 X) state round3
           in Inr (h\<lparr>m_state := add_back orig state\<rparr>)))"

text \<open>The loop of \<open>update\<close>: \<open>idx\<close> walks over \<open>content\<close> in steps of 64.\<close>

function update_loop :: "md4 \<Rightarrow> byte list \<Rightarrow> nat \<Rightarrow> pyerr + md4" where
  "update_loop h content idx =
     (let next = idx + 64 in
      if next \<le> length content then
        (case process h (take (next - idx) (drop idx content)) of
           Inl e \<Rightarrow> Inl e
         | Inr h' \<Rightarrow> update_loop (h'\<lparr>m_count := m_count h' + 1\<rparr>) content next)
      else Inr (h\<lparr>m_buf := drop idx content\<rparr>))"
  by pat_completeness auto
termination
  by (relation "measure (\<lambda>(h, content, idx). length content - idx)") auto

declare update_loop.simps [simp del]

definition update :: "md4 \<Rightarrow> byte list \<Rightarrow> pyerr + md4" where
  "update h content =
     (let buf = m_buf h;
          content = (if buf \<noteq> [] then buf @ content else content)
      in update_loop h content 0)"

definition md4_new :: md4 where
  "md4_new = \<lparr>m_count = 0, m_state = [0x67452301, 0xefcdab89, 0x98badcfe, 0x10325476], m_buf = []\<rparr>"

definition md4_init :: "byte list \<Rightarrow> pyerr + md4" where
  "md4_init content = (if content \<noteq> [] then update md4_new content else Inr md4_new)"

definition copy :: "md4 \<Rightarrow> md4" where
  "copy h = \<lparr>m_count = m_count h, m_state = m_state h, m_buf = m_buf h\<rparr>"

text \<open>\<open>digest\<close> returns what the call returns or raises, and the object after the call.\<close>

definition final_block :: "md4 \<Rightarrow> pyerr + byte list" where
  "final_block h =
     (let buf = m_buf h;
          msglen = m_count h * 512 + int (length buf) * 8
      in case pack_I 2 [msglen AND MASK_32, (drop_bit 32 msglen) AND MASK_32] of
           Inl e \<Rightarrow> Inl e
         | Inr len8 \<Rightarrow>
             Inr (buf @ [0x80] @ replicate (nat ((119 - int (length buf)) mod 64)) 0 @ len8))"

definition render :: "int list \<Rightarrow> md4 \<Rightarrow> (pyerr + byte list) \<times> md4" where
  "render orig h =
     (case pack_I 4 (m_state h) of
        Inl e \<Rightarrow> (Inl e, h)
      | Inr out \<Rightarrow> (Inr out, h\<lparr>m_state := orig\<rparr>))"

definition digest :: "md4 \<Rightarrow> (pyerr + byte list) \<times> md4" where
  "digest h =
     (let orig = m_state h in
      case final_block h of
        Inl e \<Rightarrow> (Inl e, h)
      | Inr block \<Rightarrow>
          if length block = 128 then
            (case process h (take 64 block) of
               Inl e \<Rightarrow> (Inl e, h)
             | Inr h1 \<Rightarrow>
                 (case process h1 (drop 64 block) of
                    Inl e \<Rightarrow> (Inl e, h1)
                  | Inr h2 \<Rightarrow> render orig h2))
          else if length block = 64 then
            (case process h block of
               Inl e \<Rightarrow> (Inl e, h)
             | Inr h1 \<Rightarrow> render orig h1)
          else (Inl AssertionError, h))"

text \<open>What every md4 object satisfies: the state has the four registers, and the buffer
  holds less than one block (\<open>update\<close> leaves the rest of a division by 64 there).\<close>

definition md4_inv :: "md4 \<Rightarrow> bool" where
  "md4_inv h = (length (m_state h) = 4 \<and> length (m_buf h) < 64)"

section \<open>ldaptor/protocols/ldap/ldapclient.py\<close>

subsection \<open>The client and what it does to the outside\<close>

text \<open>
  What the client does to objects it does not own is kept as a trace of events: firing a
  Deferred (\<open>d.callback(x)\<close>, \<open>d.errback(reason)\<close>), attaching a callback to one, calling
  a handler, writing to the transport, asking the transport for TLS and the unsolicited
  notification hook. The debug log (\<open>log.msg\<close> under \<open>self.debug\<close>) only observes and is
  left out.
\<close>

datatype payload =
    PValue protocol_op
  | PPair protocol_op "control list option"
  | PNone

datatype event =
    Callback deferred payload
  | Errback deferred failure
  | AddCallbackStartTLS deferred ctx
  | HandlerCall int hargs
  | UnsolicitedNotification protocol_op
  | TransportWrite ldap_message
  | TransportStartTLS ctx

record ldap_client =
  onwire :: onwire_dict
  buffer :: "byte list"
  connected :: "int option"
  events :: "event list"
  next_d :: nat

text \<open>\<open>__init__\<close>: \<open>onwire = {}\<close>, \<open>buffer = b''\<close>, \<open>connected = None\<close>.\<close>

definition ldap_client_init :: ldap_client where
  "ldap_client_init = \<lparr>onwire = [], buffer = [], connected = None, events = [], next_d = 0\<rparr>"

text \<open>Truth value of \<open>self.connected\<close>, which is \<open>None\<close>, \<open>1\<close> or \<open>0\<close>.\<close>

definition truthy :: "int option \<Rightarrow> bool" where
  "truthy c = (case c of None \<Rightarrow> False | Some n \<Rightarrow> n \<noteq> 0)"

text \<open>The constants of \<open>pureldap\<close> and \<open>ldaperrors\<close> that the client compares with:
  \<open>ldaperrors.Success.resultCode\<close> and \<open>pureldap.LDAPStartTLSResponse.oid\<close>. Their
  modules are not among the sources, so they are parameters.\<close>

record ldap_consts =
  Success_resultCode :: int
  LDAPStartTLSResponse_oid :: string

subsection \<open>Deferreds\<close>

text \<open>A Deferred fires once: \<open>callback\<close> and \<open>errback\<close> raise \<open>AlreadyCalledError\<close> on a
  Deferred that has fired.\<close>

fun fired :: "event \<Rightarrow> deferred option" where
  "fired (Callback d x) = Some d"
| "fired (Errback d r) = Some d"
| "fired e = None"

definition called :: "deferred \<Rightarrow> ldap_client \<Rightarrow> bool" where
  "called d s = (Some d \<in> set (map fired (events s)))"

definition emit :: "event \<Rightarrow> ldap_client \<Rightarrow> ldap_client" where
  "emit e s = s\<lparr>events := events s @ [e]\<rparr>"

definition callback :: "deferred \<Rightarrow> payload \<Rightarrow> ldap_client \<Rightarrow> (pyerr + unit) \<times> ldap_client" where
  "callback d x s =
     (if called d s then (Inl AlreadyCalledError, s) else (Inr (), emit (Callback d x) s))"

definition errback :: "deferred \<Rightarrow> failure \<Rightarrow> ldap_client \<Rightarrow> (pyerr + unit) \<times> ldap_client" where
  "errback d reason s =
     (if called d s then (Inl AlreadyCalledError, s) else (Inr (), emit (Errback d reason) s))"

definition new_Deferred :: "ldap_client \<Rightarrow> deferred \<times> ldap_client" where
  "new_Deferred s = (next_d s, s\<lparr>next_d := Suc (next_d s)\<rparr>)"

subsection \<open>connectionMade and connectionLost\<close>

definition connectionMade :: "ldap_client \<Rightarrow> ldap_client" where
  "connectionMade s = s\<lparr>connected := Some 1\<rparr>"

text \<open>The loop \<open>while self.onwire: k, v = self.onwire.popitem(); d = v[0]; d.errback(reason)\<close>.\<close>

function connectionLost_loop :: "failure \<Rightarrow> ldap_client \<Rightarrow> (pyerr + unit) \<times> ldap_client" where
  "connectionLost_loop reason s =
     (if onwire s \<noteq> [] then
        (let (k, v) = last (onwire s);
             s1 = s\<lparr>onwire := butlast (onwire s)\<rparr>;
             d = fst v
         in case errback d reason s1 of
              (Inl e, s2) \<Rightarrow> (Inl e, s2)
            | (Inr u, s2) \<Rightarrow> connectionLost_loop reason s2)
      else (Inr (), s))"
  by pat_completeness auto
termination
  apply (relation "measure (\<lambda>(reason, s). length (onwire s))")
   apply simp
  apply (auto simp: errback_def emit_def split: if_splits)
  done

declare connectionLost_loop.simps [simp del]

definition connectionLost :: "failure \<Rightarrow> ldap_client \<Rightarrow> (pyerr + unit) \<times> ldap_client" where
  "connectionLost reason s = connectionLost_loop reason (s\<lparr>connected := Some 0\<rparr>)"

subsection \<open>Sending\<close>

text \<open>
  \<open>pureldap.LDAPMessage(op, controls=controls)\<close> gives the message an id from the
  allocator of \<open>pureldap\<close>, which is not among the sources: the id is the parameter
  \<open>mid\<close>. \<open>_send\<close> is \<open>priv_send\<close> here.
\<close>

definition priv_send ::
  "ldap_request \<Rightarrow> control list option \<Rightarrow> int \<Rightarrow> ldap_client \<Rightarrow> (pyerr + ldap_message) \<times> ldap_client" where
  "priv_send op controls mid s =
     (if \<not> truthy (connected s) then (Inl LDAPClientConnectionLostException, s)
      else
        (let msg = \<lparr>msg_id = mid, msg_value = Request op, msg_controls = controls\<rparr>
         in if \<not> (map_of (onwire s) (msg_id msg) = None) then (Inl AssertionError, s)
            else (Inr msg, s)))"

text \<open>The common tail of the three sending functions that expect an answer: the
  assertion on \<open>op.needs_answer\<close>, the new Deferred, the entry and the write.\<close>

definition register ::
  "ldap_request \<Rightarrow> ldap_message \<Rightarrow> (deferred \<Rightarrow> entry) \<Rightarrow> ldap_client \<Rightarrow> (pyerr + deferred) \<times> ldap_client" where
  "register op msg mk s =
     (if \<not> needs_answer op then (Inl AssertionError, s)
      else
        (let (d, s1) = new_Deferred s;
             s2 = s1\<lparr>onwire := AList.update (msg_id msg) (mk d) (onwire s1)\<rparr>;
             s3 = emit (TransportWrite msg) s2
         in (Inr d, s3)))"

definition send ::
  "ldap_request \<Rightarrow> control list option \<Rightarrow> handler option \<Rightarrow> bool \<Rightarrow> int \<Rightarrow> ldap_client
     \<Rightarrow> (pyerr + deferred) \<times> ldap_client" where
  "send op controls handler return_controls mid s =
     (case priv_send op controls mid s of
        (Inl e, s1) \<Rightarrow> (Inl e, s1)
      | (Inr msg, s1) \<Rightarrow>
          register op msg
            (\<lambda>d. if handler \<noteq> None
                 then (d, return_controls, handler, Some (PyList []), Some [])
                 else (d, return_controls, None, None, None)) s1)"

definition send_multiResponse ::
  "ldap_request \<Rightarrow> handler option \<Rightarrow> pyval list \<Rightarrow> pykwargs \<Rightarrow> int \<Rightarrow> ldap_client
     \<Rightarrow> (pyerr + deferred) \<times> ldap_client" where
  "send_multiResponse op handler args kwargs mid s =
     (case priv_send op None mid s of
        (Inl e, s1) \<Rightarrow> (Inl e, s1)
      | (Inr msg, s1) \<Rightarrow>
          register op msg (\<lambda>d. (d, False, handler, Some (PyTuple args), Some kwargs)) s1)"

definition send_multiResponse_ex ::
  "ldap_request \<Rightarrow> control list option \<Rightarrow> handler option \<Rightarrow> pyval list \<Rightarrow> pykwargs \<Rightarrow> int \<Rightarrow> ldap_client
     \<Rightarrow> (pyerr + deferred) \<times> ldap_client" where
  "send_multiResponse_ex op controls handler args kwargs mid s =
     (case priv_send op controls mid s of
        (Inl e, s1) \<Rightarrow> (Inl e, s1)
      | (Inr msg, s1) \<Rightarrow>
          register op msg (\<lambda>d. (d, True, handler, Some (PyTuple args), Some kwargs)) s1)"

definition send_noResponse ::
  "ldap_request \<Rightarrow> control list option \<Rightarrow> int \<Rightarrow> ldap_client \<Rightarrow> (pyerr + unit) \<times> ldap_client" where
  "send_noResponse op controls mid s =
     (case priv_send op controls mid s of
        (Inl e, s1) \<Rightarrow> (Inl e, s1)
      | (Inr msg, s1) \<Rightarrow>
          if needs_answer op then (Inl AssertionError, s1)
          else (Inr (), emit (TransportWrite msg) s1))"

subsection \<open>Handling a response\<close>

definition unsolicitedNotification :: "protocol_op \<Rightarrow> ldap_client \<Rightarrow> (pyerr + unit) \<times> ldap_client" where
  "unsolicitedNotification v s = (Inr (), emit (UnsolicitedNotification v) s)"

text \<open>\<open>del self.onwire[k]\<close>\<close>

definition del_onwire :: "int \<Rightarrow> ldap_client \<Rightarrow> (pyerr + unit) \<times> ldap_client" where
  "del_onwire k s =
     (if map_of (onwire s) k = None then (Inl (KeyError k), s)
      else (Inr (), s\<lparr>onwire := AList.delete k (onwire s)\<rparr>))"

text \<open>The branch of \<open>handle\<close> for an entry with a handler: the handler is called, and when
  it returns true the entry is deleted and the Deferred fires with \<open>None\<close>.\<close>

definition run_handler ::
  "handler \<Rightarrow> hargs \<Rightarrow> pyargs \<Rightarrow> pykwargs \<Rightarrow> int \<Rightarrow> deferred \<Rightarrow> ldap_client \<Rightarrow> (pyerr + unit) \<times> ldap_client" where
  "run_handler h a args kwargs k d s =
     (let s1 = emit (HandlerCall k a) s
      in if h a args kwargs then
           (case del_onwire k s1 of
              (Inl e, s2) \<Rightarrow> (Inl e, s2)
            | (Inr u, s2) \<Rightarrow> callback d PNone s2)
         else (Inr (), s1))"

definition handle :: "ldap_message \<Rightarrow> ldap_client \<Rightarrow> (pyerr + unit) \<times> ldap_client" where
  "handle msg s =
     (if \<not> is_LDAPProtocolResponse (msg_value msg) then (Inl AssertionError, s)
      else if msg_id msg = 0 then unsolicitedNotification (msg_value msg) s
      else
        (case map_of (onwire s) (msg_id msg) of
           None \<Rightarrow> (Inl (KeyError (msg_id msg)), s)
         | Some (d, return_controls, handler, args, kwargs) \<Rightarrow>
             (case handler of
                None \<Rightarrow>
                  if \<not> (args = None \<or> args = Some (PyTuple [])) then (Inl AssertionError, s)
                  else if \<not> (kwargs = None \<or> kwargs = Some []) then (Inl AssertionError, s)
                  else
                    (case (if return_controls
                           then callback d (PPair (msg_value msg) (msg_controls msg)) s
                           else callback d (PValue (msg_value msg)) s) of
                       (Inl e, s1) \<Rightarrow> (Inl e, s1)
                     | (Inr u, s1) \<Rightarrow> del_onwire (msg_id msg) s1)
              | Some h \<Rightarrow>
                  (case args of
                     None \<Rightarrow> (Inl AssertionError, s)
                   | Some args' \<Rightarrow>
                       (case kwargs of
                          None \<Rightarrow> (Inl AssertionError, s)
                        | Some kwargs' \<Rightarrow>
                            if return_controls
                            then run_handler h (Args2 (msg_value msg) (msg_controls msg))
                                   args' kwargs' (msg_id msg) d s
                            else run_handler h (Args1 (msg_value msg))
                                   args' kwargs' (msg_id msg) d s)))))"

subsection \<open>Receiving\<close>

text \<open>
  \<open>pureber.berDecodeObject(self.berdecoder, self.buffer)\<close> is not among the sources: the
  decoder is the parameter \<open>dec\<close>. It returns the pair \<open>(o, bytes)\<close>, where the object \<open>o\<close> may be
  \<open>None\<close>, or raises; \<open>BERExceptionInsufficientData\<close> is the one exception that
  \<open>dataReceived\<close> catches. An object that the decoder returns is true in \<open>if not o\<close>.

  The loop \<open>while 1\<close> ends by \<open>break\<close> or by an exception. Nothing in \<open>dataReceived\<close>
  bounds it (a decoder that returns an object and consumes no byte keeps it running), so
  it is a partial function: \<open>None\<close> is the loop that does not end.
\<close>

type_synonym decoder = "byte list \<Rightarrow> pyerr + (ldap_message option \<times> nat)"

definition try_decode :: "decoder \<Rightarrow> byte list \<Rightarrow> pyerr + (ldap_message option \<times> nat)" where
  "try_decode dec buf =
     (case dec buf of
        Inl BERExceptionInsufficientData \<Rightarrow> Inr (None, 0)
      | Inl e \<Rightarrow> Inl e
      | Inr r \<Rightarrow> Inr r)"

partial_function (option) dataReceived_loop ::
  "decoder \<Rightarrow> ldap_client \<Rightarrow> ((pyerr + unit) \<times> ldap_client) option" where
  "dataReceived_loop dec s =
     (case try_decode dec (buffer s) of
        Inl e \<Rightarrow> Some (Inl e, s)
      | Inr (obj, bytes) \<Rightarrow>
          (let s1 = s\<lparr>buffer := drop bytes (buffer s)\<rparr>
           in case obj of
                None \<Rightarrow> Some (Inr (), s1)
              | Some m \<Rightarrow>
                  (case handle m s1 of
                     (Inl e, s2) \<Rightarrow> Some (Inl e, s2)
                   | (Inr u, s2) \<Rightarrow> dataReceived_loop dec s2)))"

definition dataReceived ::
  "decoder \<Rightarrow> byte list \<Rightarrow> ldap_client \<Rightarrow> ((pyerr + unit) \<times> ldap_client) option" where
  "dataReceived dec recd s = dataReceived_loop dec (s\<lparr>buffer := buffer s @ recd\<rparr>)"

subsection \<open>STARTTLS\<close>

text \<open>\<open>_cbStartTLS(msg, ctx)\<close> is the callback of the Deferred of the STARTTLS request: it is
  called with what the Deferred fired with. It returns \<open>self\<close>.\<close>

definition priv_cbStartTLS ::
  "ldap_consts \<Rightarrow> protocol_op \<Rightarrow> ctx \<Rightarrow> ldap_client \<Rightarrow> (pyerr + unit) \<times> ldap_client" where
  "priv_cbStartTLS K msg c s =
     (case msg of
        Response (LDAPExtendedResponse resultCode matchedDN errorMessage referral responseName response) \<Rightarrow>
          if referral \<noteq> None then (Inl AssertionError, s)
          else if resultCode \<noteq> Success_resultCode K
            then (Inl (LDAPResultError resultCode errorMessage), s)
          else if responseName \<noteq> None \<and> responseName \<noteq> Some (LDAPStartTLSResponse_oid K)
            then (Inl (LDAPStartTLSInvalidResponseName (the responseName)), s)
          else (Inr (), emit (TransportStartTLS c) s)
      | _ \<Rightarrow> (Inl AssertionError, s))"

text \<open>\<open>_startTLS(ctx)\<close>; \<open>pureldap.LDAPStartTLSRequest()\<close> is a request that needs an answer.\<close>

definition LDAPStartTLSRequest :: ldap_request where
  "LDAPStartTLSRequest = \<lparr>rq_name = ''LDAPStartTLSRequest'', needs_answer = True\<rparr>"

definition priv_startTLS :: "ctx \<Rightarrow> int \<Rightarrow> ldap_client \<Rightarrow> (pyerr + deferred) \<times> ldap_client" where
  "priv_startTLS c mid s =
     (if \<not> truthy (connected s) then (Inl LDAPClientConnectionLostException, s)
      else if onwire s \<noteq> [] then (Inl (LDAPStartTLSBusyError (onwire s)), s)
      else
        (let op = LDAPStartTLSRequest
         in case send op None None False mid s of
              (Inl e, s1) \<Rightarrow> (Inl e, s1)
            | (Inr d, s1) \<Rightarrow> (Inr d, emit (AddCallbackStartTLS d c) s1)))"

section \<open>duoauthproxy/modules/radius_client.py\<close>

text \<open>
  A response packet of \<open>pyrad\<close> is a dict from attribute names to lists of values, with
  the attribute \<open>code\<close>. The module keeps \<open>pass_through_attr_names\<close> and
  \<open>pass_through_all\<close>.
\<close>

record radius_packet =
  pkt_code :: int
  pkt_attrs :: "(string \<times> string list) list"

record radius_module =
  pass_through_attr_names :: "string list"
  pass_through_all :: bool

text \<open>The constants that \<open>radius_client.py\<close> imports: \<open>packet.AccessAccept\<close> and
  \<open>packet.AccessReject\<close> of \<open>pyrad\<close>, and \<open>MS_CHAP2_RESPONSE_ATTRS\<close> of
  \<open>lib/radius/base.py\<close>. Their modules are not among the sources, so they are
  parameters.\<close>

record radius_consts =
  AccessAccept :: int
  AccessReject :: int
  MS_CHAP2_RESPONSE_ATTRS :: "string list"

record auth_result =
  accepted :: bool
  attributes :: "(string \<times> string list) list"
  rawCode :: int

text \<open>
  Modelled from the spec: \<open>AuthResult.from_radius_packet\<close> (\<open>lib/base.py\<close>) is not among the
  sources. The spec (4.6, and AuthResult in 3): the attributes whose names are passed
  through are copied from the response into \<open>attributes\<close>; \<open>accepted\<close> tells an
  Access-Accept, \<open>rawCode\<close> is the status of the protocol.
\<close>

definition from_radius_packet :: "radius_consts \<Rightarrow> radius_packet \<Rightarrow> string list \<Rightarrow> auth_result" where
  "from_radius_packet R response_packet names =
     \<lparr>accepted = (pkt_code response_packet = AccessAccept R),
      attributes = filter (\<lambda>(n, v). n \<in> set names) (pkt_attrs response_packet),
      rawCode = pkt_code response_packet\<rparr>"

text \<open>The names that \<open>authenticate\<close> passes to \<open>from_radius_packet\<close> (lines 75 to 81).\<close>

definition selected_attr_names :: "radius_consts \<Rightarrow> radius_module \<Rightarrow> radius_packet \<Rightarrow> string list" where
  "selected_attr_names R M response_packet =
     (if pass_through_all M then map fst (pkt_attrs response_packet)
      else pass_through_attr_names M @ MS_CHAP2_RESPONSE_ATTRS R)"

text \<open>
  \<open>authenticate\<close> and \<open>radius_proxy\<close> wait for the Deferred of the protocol layer
  (\<open>self.protocol\<close>, a \<open>RadiusClient\<close>, not among the sources): \<open>yield\<close> gives the response
  packet or raises the failure of the Deferred. The parameter \<open>answer\<close> is this outcome.
\<close>

definition authenticate ::
  "radius_consts \<Rightarrow> radius_module \<Rightarrow> pyerr + radius_packet \<Rightarrow> pyerr + auth_result" where
  "authenticate R M answer =
     (case answer of
        Inl e \<Rightarrow> Inl e
      | Inr response_packet \<Rightarrow>
          if pkt_code response_packet \<notin> {AccessAccept R, AccessReject R}
          then Inl (PacketError (pkt_code response_packet))
          else Inr (from_radius_packet R response_packet
                      (selected_attr_names R M response_packet)))"

definition radius_proxy ::
  "radius_consts \<Rightarrow> radius_module \<Rightarrow> pyerr + radius_packet \<Rightarrow> pyerr + auth_result" where
  "radius_proxy R M answer =
     (case answer of
        Inl e \<Rightarrow> Inl e
      | Inr response_packet \<Rightarrow>
          Inr (from_radius_packet R response_packet (map fst (pkt_attrs response_packet))))"

section \<open>Notions used to state the properties\<close>

subsection \<open>The invariant of the client\<close>

text \<open>
  What holds of every state the client reaches from \<open>__init__\<close> by its own methods (the
  lemmas \<open>wf_init\<close>, \<open>wf_connectionMade\<close>, \<open>wf_send\<close>, \<open>wf_handle\<close>, \<open>wf_dataReceived\<close>,
  \<open>wf_connectionLost\<close> and their like): the keys of \<open>onwire\<close> are those of a dict, the
  Deferreds of its entries are different objects that have not fired and were made by
  \<open>defer.Deferred()\<close>, as were all Deferreds that fired, and entries are outstanding only
  while the client is connected.
\<close>

definition fired_below :: "nat \<Rightarrow> event \<Rightarrow> bool" where
  "fired_below n e = (case fired e of None \<Rightarrow> True | Some d \<Rightarrow> d < n)"

definition wf_client :: "ldap_client \<Rightarrow> bool" where
  "wf_client s =
     (distinct (map fst (onwire s)) \<and>
      distinct (map (fst \<circ> snd) (onwire s)) \<and>
      list_all (\<lambda>kv. \<not> called (fst (snd kv)) s \<and> fst (snd kv) < next_d s) (onwire s) \<and>
      list_all (fired_below (next_d s)) (events s) \<and>
      (onwire s = [] \<or> truthy (connected s)))"

subsection \<open>Frames, and feeding a stream in chunks\<close>

text \<open>
  The contract of the decoder on one frame \<open>f\<close> that encodes the message \<open>m\<close>: whatever
  follows the frame in the buffer, the decoder returns \<open>m\<close> and the length of \<open>f\<close>; on a
  part of the frame it raises \<open>BERExceptionInsufficientData\<close>. On the empty buffer the
  decoder must return no object (or report insufficient data).
\<close>

definition is_frame :: "decoder \<Rightarrow> byte list \<Rightarrow> ldap_message \<Rightarrow> bool" where
  "is_frame dec f m =
     (f \<noteq> [] \<and>
      (\<forall>ext. dec (f @ ext) = Inr (Some m, length f)) \<and>
      (\<forall>n. 0 < n \<and> n < length f \<longrightarrow> dec (take n f) = Inl BERExceptionInsufficientData))"

definition empty_ok :: "decoder \<Rightarrow> bool" where
  "empty_ok dec = (\<exists>n. try_decode dec [] = Inr (None, n))"

text \<open>
  \<open>handle_all\<close> is what the loop of \<open>dataReceived\<close> does with the messages it decodes:
  \<open>handle\<close> on each in turn, until one raises. \<open>feed\<close> is the transport that delivers the
  chunks of a stream one after the other; an exception that leaves \<open>dataReceived\<close> ends
  the deliveries (the transport drops the connection), and so does a loop that never
  ends.
\<close>

fun handle_all :: "ldap_message list \<Rightarrow> ldap_client \<Rightarrow> (pyerr + unit) \<times> ldap_client" where
  "handle_all [] s = (Inr (), s)"
| "handle_all (m # ms) s =
     (case handle m s of
        (Inl e, s') \<Rightarrow> (Inl e, s')
      | (Inr u, s') \<Rightarrow> handle_all ms s')"

fun feed :: "decoder \<Rightarrow> byte list list \<Rightarrow> ldap_client \<Rightarrow> ((pyerr + unit) \<times> ldap_client) option" where
  "feed dec [] s = Some (Inr (), s)"
| "feed dec (c # cs) s =
     (case dataReceived dec c s of
        None \<Rightarrow> None
      | Some (Inl e, s') \<Rightarrow> Some (Inl e, s')
      | Some (Inr u, s') \<Rightarrow> feed dec cs s')"

text \<open>A decoder to try the contract on, in the witnesses (it is not the BER decoder of
  \<open>pureber\<close>): a frame is a length byte \<open>l > 0\<close> and \<open>l\<close> bytes of content, of which the
  first is the id of the message.\<close>

definition example_decoder :: decoder where
  "example_decoder buf =
     (case buf of
        [] \<Rightarrow> Inr (None, 0)
      | l # rest \<Rightarrow>
          if length rest < unat l then Inl BERExceptionInsufficientData
          else
            (case rest of
               [] \<Rightarrow> Inr (None, 1)
             | i # content \<Rightarrow>
                 if unat l = 0 then Inr (None, 1)
                 else Inr (Some \<lparr>msg_id = uint i, msg_value = Response (LDAPOtherResponse []),
                                 msg_controls = None\<rparr>, 1 + unat l)))"

section \<open>Verification of md4\<close>

subsection \<open>Test vectors of RFC 1320\<close>

lemma md4_test_vector_empty:
  "(case fst (digest md4_new) of
      Inl e \<Rightarrow> False
    | Inr out \<Rightarrow> out = [0x31, 0xd6, 0xcf, 0xe0, 0xd1, 0x6a, 0xe9, 0x31,
                        0xb7, 0x3c, 0x59, 0xd7, 0xe0, 0xc0, 0x89, 0xc0])"
  by code_simp

lemma md4_test_vector_abc:
  "(case md4_init [0x61, 0x62, 0x63] of
      Inl e \<Rightarrow> False
    | Inr h \<Rightarrow>
        (case fst (digest h) of
           Inl e \<Rightarrow> False
         | Inr out \<Rightarrow> out = [0xa4, 0x48, 0x01, 0x7a, 0xaf, 0x21, 0xd8, 0x52,
                             0x5f, 0xc1, 0x0a, 0xe8, 0x7a, 0xa6, 0x72, 0x9d]))"
  by code_simp

subsection \<open>Blocks and registers\<close>

lemma and_MASK_32_range: "in_range_I (x AND MASK_32)"
proof -
  have "MASK_32 = mask 32" by (simp add: MASK_32_def mask_eq_exp_minus_1)
  then have "x AND MASK_32 = take_bit 32 x" by (simp add: take_bit_eq_mask)
  then show ?thesis
    unfolding in_range_I_def using take_bit_int_less_exp [of 32 x] by simp
qed

lemma length_add_back: "length (add_back orig state) = length orig"
proof -
  have "length (foldl (\<lambda>orig i. orig[i := (orig ! i + state ! i) AND MASK_32]) orig ks) = length orig" for ks
    by (induction ks arbitrary: orig) simp_all
  then show ?thesis by (simp add: add_back_def)
qed

lemma add_back_range:
  assumes "length orig = 4"
  shows "list_all in_range_I (add_back orig state)"
proof -
  obtain a b c d where o: "orig = [a, b, c, d]"
    using assms by (auto simp: length_Suc_conv numeral_eq_Suc)
  have up: "[0..<4] = [0, Suc 0, 2, 3]" by (simp add: upt_rec numeral_eq_Suc)
  show ?thesis
    by (simp add: add_back_def o up and_MASK_32_range)
qed

lemma process_cases:
  assumes "length block = 64"
  shows "case process h block of Inl e \<Rightarrow> False
         | Inr h' \<Rightarrow> h' = h\<lparr>m_state := m_state h'\<rparr> \<and> length (m_state h') = length (m_state h)
            \<and> (length (m_state h) = 4 \<longrightarrow> list_all in_range_I (m_state h'))"
  using assms
  by (simp add: process_def unpack_16I_def Let_def length_add_back add_back_range)

lemma process_Inr:
  assumes "length block = 64"
  shows "\<exists>st. process h block = Inr (h\<lparr>m_state := st\<rparr>) \<and> length st = length (m_state h)
            \<and> (length (m_state h) = 4 \<longrightarrow> list_all in_range_I st)"
proof (cases "process h block")
  case (Inl e)
  with process_cases [OF assms, of h] show ?thesis by simp
next
  case (Inr h')
  with process_cases [OF assms, of h]
  have "h' = h\<lparr>m_state := m_state h'\<rparr>" "length (m_state h') = length (m_state h)"
    "length (m_state h) = 4 \<longrightarrow> list_all in_range_I (m_state h')"
    by simp_all
  with Inr show ?thesis by metis
qed

subsection \<open>The final block\<close>

lemma pad_length:
  assumes "n < 64"
  shows "n + 9 + nat ((119 - int n) mod 64) = 64 \<or> n + 9 + nat ((119 - int n) mod 64) = 128"
proof (cases "n \<le> 55")
  case True
  have "(119 - int n) mod 64 = ((55 - int n) + 64) mod 64" by simp
  also have "\<dots> = (55 - int n) mod 64" by (rule mod_add_self2)
  also have "\<dots> = 55 - int n" using True by (simp add: mod_pos_pos_trivial)
  finally have "nat ((119 - int n) mod 64) = 55 - n" by simp
  then show ?thesis using True by simp
next
  case False
  then have "(119 - int n) mod 64 = 119 - int n"
    using assms by (simp add: mod_pos_pos_trivial)
  then have "nat ((119 - int n) mod 64) = 119 - n" by simp
  then show ?thesis using assms False by simp
qed

lemma final_block_Inr:
  "\<exists>block. final_block h = Inr block \<and>
      length block = length (m_buf h) + 9 + nat ((119 - int (length (m_buf h))) mod 64)"
  by (simp add: final_block_def pack_I_def Let_def and_MASK_32_range bytes_I_def)

lemma final_block_length:
  assumes "length (m_buf h) < 64" and "final_block h = Inr block"
  shows "length block = 64 \<or> length block = 128"
proof -
  from final_block_Inr [of h] assms(2)
  have "length block = length (m_buf h) + 9 + nat ((119 - int (length (m_buf h))) mod 64)"
    by auto
  with pad_length [OF assms(1)] show ?thesis by simp
qed

lemma render_ok:
  assumes "length st = 4" and "list_all in_range_I st"
  shows "\<exists>out. render (m_state h) (h\<lparr>m_state := st\<rparr>) = (Inr out, h) \<and> length out = 16"
proof -
  obtain a b c d where o: "st = [a, b, c, d]"
    using assms(1) by (auto simp: length_Suc_conv numeral_eq_Suc)
  show ?thesis using assms(2) by (simp add: render_def pack_I_def o bytes_I_def)
qed

subsection \<open>digest returns and restores the object\<close>

lemma digest_frame:
  assumes "md4_inv h"
  shows "\<exists>out. digest h = (Inr out, h) \<and> length out = 16"
proof -
  from assms have l4: "length (m_state h) = 4" and lb: "length (m_buf h) < 64"
    by (simp_all add: md4_inv_def)
  obtain block where fb: "final_block h = Inr block"
    using final_block_Inr by blast
  from final_block_length [OF lb fb] show ?thesis
  proof
    assume len: "length block = 64"
    obtain st where p: "process h block = Inr (h\<lparr>m_state := st\<rparr>)"
      and st: "length st = 4" "list_all in_range_I st"
      using process_Inr [OF len, of h] l4 by auto
    from render_ok [OF st, of h] show ?thesis
      by (simp add: digest_def fb len p)
  next
    assume len: "length block = 128"
    have l1: "length (take 64 block) = 64" and l2: "length (drop 64 block) = 64"
      using len by simp_all
    obtain st1 where p1: "process h (take 64 block) = Inr (h\<lparr>m_state := st1\<rparr>)"
      and st1: "length st1 = 4"
      using process_Inr [OF l1, of h] l4 by auto
    obtain st2 where p2: "process (h\<lparr>m_state := st1\<rparr>) (drop 64 block) = Inr (h\<lparr>m_state := st2\<rparr>)"
      and st2: "length st2 = 4" "list_all in_range_I st2"
      using process_Inr [OF l2, of "h\<lparr>m_state := st1\<rparr>"] st1 by auto
    from render_ok [OF st2, of h] show ?thesis
      by (simp add: digest_def fb len p1 p2)
  qed
qed

subsection \<open>The invariant holds for every object that the class builds\<close>

lemma md4_inv_new: "md4_inv md4_new"
  by (simp add: md4_inv_def md4_new_def)

lemma update_loop_inv:
  "length (m_state h) = 4 \<Longrightarrow>
   \<exists>h'. update_loop h content idx = Inr h' \<and> length (m_state h') = 4 \<and>
        m_buf h' = drop (idx + 64 * ((length content - idx) div 64)) content"
proof (induction h content idx rule: update_loop.induct)
  case (1 h content idx)
  show ?case
  proof (cases "idx + 64 \<le> length content")
    case True
    then have len: "length (take (idx + 64 - idx) (drop idx content)) = 64" by simp
    obtain st where p: "process h (take (idx + 64 - idx) (drop idx content)) = Inr (h\<lparr>m_state := st\<rparr>)"
      and st: "length st = 4"
      using process_Inr [OF len, of h] "1.prems" by auto
    let ?h = "h\<lparr>m_state := st, m_count := m_count (h\<lparr>m_state := st\<rparr>) + 1\<rparr>"
    have "\<exists>h'. update_loop ?h content (idx + 64) = Inr h' \<and> length (m_state h') = 4 \<and>
        m_buf h' = drop (idx + 64 + 64 * ((length content - (idx + 64)) div 64)) content"
      using "1.IH" [OF refl True p] st by simp
    moreover have "idx + 64 + 64 * ((length content - (idx + 64)) div 64)
                 = idx + 64 * ((length content - idx) div 64)"
      using True le_div_geq [of 64 "length content - idx"] by simp
    ultimately show ?thesis
      using True p by (subst update_loop.simps) (simp add: Let_def)
  next
    case False
    then have "(length content - idx) div 64 = 0" by simp
    with False "1.prems" show ?thesis
      by (subst update_loop.simps) (simp add: Let_def)
  qed
qed

lemma update_inv:
  assumes "md4_inv h"
  shows "\<exists>h'. update h s = Inr h' \<and> md4_inv h'"
proof -
  let ?c = "if m_buf h \<noteq> [] then m_buf h @ s else s"
  from assms have "length (m_state h) = 4" by (simp add: md4_inv_def)
  from update_loop_inv [OF this, of ?c 0]
  obtain h' where u: "update_loop h ?c 0 = Inr h'" and l: "length (m_state h') = 4"
    and b: "m_buf h' = drop (64 * (length ?c div 64)) ?c"
    by auto
  have "length (m_buf h') = length ?c mod 64"
    unfolding b by (simp add: minus_mult_div_eq_mod)
  then have "length (m_buf h') < 64" by simp
  with u l show ?thesis by (simp add: update_def md4_inv_def Let_def)
qed

lemma md4_init_inv: "\<exists>h. md4_init s = Inr h \<and> md4_inv h"
  using update_inv [OF md4_inv_new] md4_inv_new by (simp add: md4_init_def)

lemma copy_inv: "md4_inv h \<Longrightarrow> md4_inv (copy h)"
  by (simp add: md4_inv_def copy_def)

text \<open>
  C10. \<open>digest()\<close> does not change the object: on every md4 object (the state holds the
  four registers and the buffer less than a block, as after \<open>__init__\<close>, \<open>update\<close> and
  \<open>copy\<close>) it returns 16 bytes and leaves \<open>_state\<close>, \<open>_count\<close> and \<open>_buf\<close> as they were;
  a second call returns the same bytes, and \<open>update(s)\<close> after \<open>digest()\<close> gives the object
  that \<open>update(s)\<close> gives without it, hence the same later digest.
\<close>

theorem digest_non_destructive:
  assumes "md4_inv h"
  shows "(\<exists>out. digest h = (Inr out, h) \<and> length out = 16 \<and> digest (snd (digest h)) = (Inr out, h))
       \<and> (\<exists>h'. update h s = Inr h' \<and> update (snd (digest h)) s = Inr h'
              \<and> fst (digest (snd (digest h'))) = fst (digest h'))"
proof -
  obtain out where "digest h = (Inr out, h)" "length out = 16"
    using digest_frame [OF assms] by blast
  moreover obtain h' where "update h s = Inr h'" "md4_inv h'"
    using update_inv [OF assms] by blast
  moreover then obtain out' where "digest h' = (Inr out', h')"
    using digest_frame by blast
  ultimately show ?thesis by simp
qed

theorem digest_non_destructive_witness:
  "md4_inv \<lparr>m_count = 0, m_state = [0x67452301, 0xefcdab89, 0x98badcfe, 0x10325476], m_buf = [0x61, 0x62, 0x63]\<rparr>
   \<and> (\<exists>out. digest \<lparr>m_count = 0, m_state = [0x67452301, 0xefcdab89, 0x98badcfe, 0x10325476], m_buf = [0x61, 0x62, 0x63]\<rparr>
         = (Inr out, \<lparr>m_count = 0, m_state = [0x67452301, 0xefcdab89, 0x98badcfe, 0x10325476], m_buf = [0x61, 0x62, 0x63]\<rparr>)
        \<and> length out = 16)"
proof -
  let ?h = "\<lparr>m_count = 0, m_state = [0x67452301, 0xefcdab89, 0x98badcfe, 0x10325476], m_buf = [0x61, 0x62, 0x63]\<rparr>"
  have inv: "md4_inv ?h" by (simp add: md4_inv_def)
  from digest_non_destructive [OF inv, of "[0x64]"] inv show ?thesis by blast
qed

section \<open>Verification of the LDAP client\<close>

subsection \<open>The invariant is kept\<close>

lemma wf_entry_not_called:
  assumes "wf_client s" and "map_of (onwire s) k = Some (d, rest)"
  shows "\<not> called d s"
proof -
  from assms(2) have "(k, d, rest) \<in> set (onwire s)" by (rule map_of_SomeD)
  with assms(1) show ?thesis by (auto simp: wf_client_def list_all_iff)
qed

lemma map_of_delete_self: "map_of (AList.delete k xs) k = None"
  by (simp add: AList.delete_conv')

lemma update_fresh: "map_of xs k = None \<Longrightarrow> AList.update k v xs = xs @ [(k, v)]"
  by (induction xs) (auto split: if_splits)

lemma wf_init: "wf_client ldap_client_init"
  by (simp add: wf_client_def ldap_client_init_def)

lemma wf_connectionMade: "wf_client s \<Longrightarrow> wf_client (connectionMade s)"
  by (simp add: wf_client_def connectionMade_def called_def truthy_def)

lemma wf_emit:
  assumes "wf_client s" and "fired e = None"
  shows "wf_client (emit e s)"
  using assms by (simp add: wf_client_def emit_def called_def fired_below_def)

lemma wf_delete:
  assumes "wf_client s"
  shows "wf_client (s\<lparr>onwire := AList.delete k (onwire s)\<rparr>)"
proof -
  have sub: "set (AList.delete k (onwire s)) \<subseteq> set (onwire s)"
    by (auto simp: AList.delete_eq)
  have d1: "distinct (map fst (AList.delete k (onwire s)))"
    using assms by (simp add: wf_client_def AList.distinct_delete)
  have d2: "distinct (map (fst \<circ> snd) (AList.delete k (onwire s)))"
    using assms unfolding wf_client_def AList.delete_eq by (simp add: distinct_map_filter)
  have tr: "AList.delete k (onwire s) = [] \<or> truthy (connected s)"
    using assms by (auto simp: wf_client_def AList.delete_eq)
  show ?thesis
    using assms sub d1 d2 tr
    by (auto simp: wf_client_def called_def list_all_iff)
qed

lemma wf_callback:
  assumes "wf_client s" and "\<forall>kv \<in> set (onwire s). fst (snd kv) \<noteq> d" and "d < next_d s"
  shows "wf_client (emit (Callback d x) s)"
  using assms by (auto simp: wf_client_def emit_def called_def list_all_iff fired_below_def)

lemma wf_fresh_not_called:
  assumes "wf_client s" and "next_d s \<le> d"
  shows "\<not> called d s"
proof
  assume "called d s"
  then obtain e where "e \<in> set (events s)" "fired e = Some d"
    by (auto simp: called_def)
  with assms(1) have "d < next_d s"
    by (auto simp: wf_client_def list_all_iff fired_below_def)
  with assms(2) show False by simp
qed

lemma wf_register:
  assumes "wf_client s" and "truthy (connected s)" and "map_of (onwire s) (msg_id msg) = None"
    and "\<And>d. fst (mk d) = d" and "register op msg mk s = (r, s')"
  shows "wf_client s'"
proof (cases "needs_answer op")
  case False
  with assms show ?thesis by (simp add: register_def)
next
  case True
  have k: "msg_id msg \<notin> fst ` set (onwire s)"
    using assms(3) by (simp add: map_of_eq_None_iff)
  have s': "s' = s\<lparr>next_d := Suc (next_d s),
                   onwire := onwire s @ [(msg_id msg, mk (next_d s))],
                   events := events s @ [TransportWrite msg]\<rparr>"
    using assms(5) True
    by (simp add: register_def new_Deferred_def emit_def update_fresh [OF assms(3)])
  have nc: "\<not> called (next_d s) s"
    using wf_fresh_not_called [OF assms(1)] by simp
  have lt: "\<forall>kv \<in> set (onwire s). fst (snd kv) < next_d s"
    using assms(1) by (auto simp: wf_client_def list_all_iff)
  show ?thesis
    unfolding s' using assms(1,2,4) k nc lt
    by (auto simp: wf_client_def called_def list_all_iff less_Suc_eq fired_below_def split: option.splits)
qed

lemma priv_send_cases:
  "priv_send op controls mid s = (r, s') \<Longrightarrow>
     s' = s \<and> (case r of Inl e \<Rightarrow> True
               | Inr msg \<Rightarrow> truthy (connected s) \<and> map_of (onwire s) mid = None \<and> msg_id msg = mid
                   \<and> msg_value msg = Request op \<and> msg_controls msg = controls)"
  by (cases "map_of (onwire s) mid") (auto simp: priv_send_def Let_def split: if_splits)

lemma wf_send:
  assumes "wf_client s" and "send op controls handler return_controls mid s = (r, s')"
  shows "wf_client s'"
proof (cases "priv_send op controls mid s")
  case (Pair r1 s1)
  note ps = priv_send_cases [OF Pair]
  show ?thesis
  proof (cases r1)
    case (Inl e)
    with assms Pair ps show ?thesis by (simp add: send_def)
  next
    case (Inr msg)
    with ps have c: "truthy (connected s)" and n: "map_of (onwire s) (msg_id msg) = None" and s1: "s1 = s"
      by simp_all
    from assms(2) Pair Inr s1 have
      "register op msg (\<lambda>d. if handler \<noteq> None
                 then (d, return_controls, handler, Some (PyList []), Some [])
                 else (d, return_controls, None, None, None)) s = (r, s')"
      by (simp add: send_def)
    from wf_register [OF assms(1) c n _ this] show ?thesis by simp
  qed
qed

lemma wf_send_multiResponse:
  assumes "wf_client s" and "send_multiResponse op handler args kwargs mid s = (r, s')"
  shows "wf_client s'"
proof (cases "priv_send op None mid s")
  case (Pair r1 s1)
  note ps = priv_send_cases [OF Pair]
  show ?thesis
  proof (cases r1)
    case (Inl e)
    with assms Pair ps show ?thesis by (simp add: send_multiResponse_def)
  next
    case (Inr msg)
    with ps have c: "truthy (connected s)" and n: "map_of (onwire s) (msg_id msg) = None" and s1: "s1 = s"
      by simp_all
    from assms(2) Pair Inr s1 have
      "register op msg (\<lambda>d. (d, False, handler, Some (PyTuple args), Some kwargs)) s = (r, s')"
      by (simp add: send_multiResponse_def)
    from wf_register [OF assms(1) c n _ this] show ?thesis by simp
  qed
qed

lemma wf_send_multiResponse_ex:
  assumes "wf_client s" and "send_multiResponse_ex op controls handler args kwargs mid s = (r, s')"
  shows "wf_client s'"
proof (cases "priv_send op controls mid s")
  case (Pair r1 s1)
  note ps = priv_send_cases [OF Pair]
  show ?thesis
  proof (cases r1)
    case (Inl e)
    with assms Pair ps show ?thesis by (simp add: send_multiResponse_ex_def)
  next
    case (Inr msg)
    with ps have c: "truthy (connected s)" and n: "map_of (onwire s) (msg_id msg) = None" and s1: "s1 = s"
      by simp_all
    from assms(2) Pair Inr s1 have
      "register op msg (\<lambda>d. (d, True, handler, Some (PyTuple args), Some kwargs)) s = (r, s')"
      by (simp add: send_multiResponse_ex_def)
    from wf_register [OF assms(1) c n _ this] show ?thesis by simp
  qed
qed

lemma wf_send_noResponse:
  assumes "wf_client s" and "send_noResponse op controls mid s = (r, s')"
  shows "wf_client s'"
proof (cases "priv_send op controls mid s")
  case (Pair r1 s1)
  note ps = priv_send_cases [OF Pair]
  show ?thesis
    using assms Pair ps wf_emit [OF assms(1), of "TransportWrite m" for m]
    by (cases r1) (auto simp: send_noResponse_def split: if_splits)
qed

lemma others_differ:
  assumes "wf_client s" and "map_of (onwire s) k = Some (d, rest)"
  shows "\<forall>kv \<in> set (AList.delete k (onwire s)). fst (snd kv) \<noteq> d"
proof
  fix kv assume "kv \<in> set (AList.delete k (onwire s))"
  then have in1: "kv \<in> set (onwire s)" and ne: "fst kv \<noteq> k"
    by (auto simp: AList.delete_eq)
  from assms(2) have in2: "(k, d, rest) \<in> set (onwire s)" by (rule map_of_SomeD)
  from assms(1) have inj: "inj_on (fst \<circ> snd) (set (onwire s))"
    by (simp add: wf_client_def distinct_map)
  show "fst (snd kv) \<noteq> d"
  proof
    assume "fst (snd kv) = d"
    then have "(fst \<circ> snd) kv = (fst \<circ> snd) (k, d, rest)" by simp
    with inj have "kv = (k, d, rest)" using in1 in2 by (rule inj_onD)
    with ne show False by simp
  qed
qed

lemma wf_entry_bound:
  assumes "wf_client s" and "map_of (onwire s) k = Some (d, rest)"
  shows "d < next_d s"
proof -
  from assms(2) have "(k, d, rest) \<in> set (onwire s)" by (rule map_of_SomeD)
  with assms(1) show ?thesis by (auto simp: wf_client_def list_all_iff)
qed

lemma wf_fire_delete:
  assumes "wf_client s" and "map_of (onwire s) k = Some (d, rest)" and "list_all (\<lambda>e. fired e = None) es"
  shows "wf_client (s\<lparr>onwire := AList.delete k (onwire s), events := events s @ es @ [Callback d x]\<rparr>)"
proof -
  let ?s1 = "s\<lparr>onwire := AList.delete k (onwire s)\<rparr>"
  let ?s2 = "?s1\<lparr>events := events ?s1 @ es\<rparr>"
  have w1: "wf_client ?s1" using assms(1) by (rule wf_delete)
  have w2: "wf_client ?s2"
    using w1 assms(3) by (auto simp: wf_client_def called_def list_all_iff fired_below_def)
  have "\<forall>kv \<in> set (onwire ?s2). fst (snd kv) \<noteq> d"
    using others_differ [OF assms(1,2)] by simp
  moreover have "d < next_d ?s2" using wf_entry_bound [OF assms(1,2)] by simp
  ultimately have "wf_client (emit (Callback d x) ?s2)" using w2 by (rule wf_callback [rotated 1])
  moreover have "emit (Callback d x) ?s2
      = s\<lparr>onwire := AList.delete k (onwire s), events := events s @ es @ [Callback d x]\<rparr>"
    by (rule ldap_client.equality) (simp_all add: emit_def)
  ultimately show ?thesis by simp
qed

lemma handle_no_handler_eq:
  assumes "wf_client s"
    and "map_of (onwire s) (msg_id m) = Some (d, return_controls, None, None, None)"
    and "msg_id m \<noteq> 0"
    and "is_LDAPProtocolResponse (msg_value m)"
  shows "handle m s =
           (Inr (), s\<lparr>onwire := AList.delete (msg_id m) (onwire s),
                      events := events s @
                        [Callback d (if return_controls then PPair (msg_value m) (msg_controls m)
                                     else PValue (msg_value m))]\<rparr>)"
  using assms(2,3,4) wf_entry_not_called [OF assms(1,2)]
  by (simp add: handle_def callback_def del_onwire_def emit_def)

lemma handle_frame:
  "handle m s = (r, s') \<Longrightarrow> buffer s' = buffer s \<and> connected s' = connected s \<and> next_d s' = next_d s"
  by (auto simp: handle_def unsolicitedNotification_def run_handler_def callback_def del_onwire_def
        emit_def Let_def split: if_splits option.splits prod.splits sum.splits)

lemma wf_handle:
  assumes "wf_client s" and "handle m s = (r, s')"
  shows "wf_client s'"
proof (cases "is_LDAPProtocolResponse (msg_value m) \<and> msg_id m \<noteq> 0")
  case False
  with assms wf_emit [OF assms(1), of "UnsolicitedNotification (msg_value m)"] show ?thesis
    by (auto simp: handle_def unsolicitedNotification_def split: if_splits)
next
  case True
  show ?thesis
  proof (cases "map_of (onwire s) (msg_id m)")
    case None
    with assms True show ?thesis by (simp add: handle_def)
  next
    case (Some en)
    obtain d rc hd ar kw where en: "en = (d, rc, hd, ar, kw)" by (cases en) auto
    note look = Some [unfolded en]
    have nc: "\<not> called d s" using wf_entry_not_called [OF assms(1) look] .
    show ?thesis
    proof (cases hd)
      case None
      have "s' = s \<or> s' = s\<lparr>onwire := AList.delete (msg_id m) (onwire s),
                             events := events s @ [] @ [Callback d (PPair (msg_value m) (msg_controls m))]\<rparr>
             \<or> s' = s\<lparr>onwire := AList.delete (msg_id m) (onwire s),
                         events := events s @ [] @ [Callback d (PValue (msg_value m))]\<rparr>"
        using assms(2) True look None nc
        by (auto simp: handle_def callback_def del_onwire_def emit_def split: if_splits)
      with assms(1) wf_fire_delete [OF assms(1) look, of "[]"] show ?thesis by auto
    next
      case (Some h)
      let ?a2 = "Args2 (msg_value m) (msg_controls m)" and ?a1 = "Args1 (msg_value m)"
      have "s' = s \<or> (\<exists>a. s' = s\<lparr>events := events s @ [HandlerCall (msg_id m) a]\<rparr>)
          \<or> (\<exists>a. s' = s\<lparr>onwire := AList.delete (msg_id m) (onwire s),
                         events := events s @ [HandlerCall (msg_id m) a] @ [Callback d PNone]\<rparr>)"
        using assms(2) True look Some nc
        by (auto simp: handle_def run_handler_def callback_def del_onwire_def emit_def called_def
              Let_def split: if_splits option.splits)
      moreover have "wf_client (s\<lparr>events := events s @ [HandlerCall (msg_id m) a]\<rparr>)" for a
        using wf_emit [OF assms(1), of "HandlerCall (msg_id m) a"] by (simp add: emit_def)
      ultimately show ?thesis
        using assms(1) wf_fire_delete [OF assms(1) look, of "[HandlerCall (msg_id m) a]" for a]
        by auto
    qed
  qed
qed

lemma connectionLost_loop_eq:
  assumes "distinct (map (fst \<circ> snd) (onwire s))"
    and "list_all (\<lambda>kv. \<not> called (fst (snd kv)) s) (onwire s)"
  shows "connectionLost_loop reason s =
           (Inr (), s\<lparr>onwire := [],
                      events := events s @ map (\<lambda>kv. Errback (fst (snd kv)) reason) (rev (onwire s))\<rparr>)"
  using assms
proof (induction "onwire s" arbitrary: s rule: rev_induct)
  case Nil
  then show ?case by (subst connectionLost_loop.simps) simp
next
  case (snoc kv xs)
  obtain k v where kv: "kv = (k, v)" by (cases kv)
  let ?s1 = "s\<lparr>onwire := butlast (onwire s)\<rparr>"
  let ?s2 = "emit (Errback (fst v) reason) ?s1"
  have ow: "onwire s = xs @ [(k, v)]" using snoc.hyps(2) kv by simp
  have nc: "\<not> called (fst v) ?s1"
    using snoc.prems(2) ow by (simp add: called_def)
  have xs2: "xs = onwire ?s2" using ow by (simp add: emit_def)
  have d2: "distinct (map (fst \<circ> snd) (onwire ?s2))"
    using snoc.prems(1) ow by (simp add: emit_def)
  have "fst v \<notin> (fst \<circ> snd) ` set xs"
    using snoc.prems(1) ow by simp
  then have ne: "\<forall>kv \<in> set xs. fst (snd kv) \<noteq> fst v" by force
  have c2: "list_all (\<lambda>kv. \<not> called (fst (snd kv)) ?s2) (onwire ?s2)"
    using snoc.prems(2) ow ne by (auto simp: emit_def called_def list_all_iff)
  have step: "connectionLost_loop reason s = connectionLost_loop reason ?s2"
    using nc ow by (subst connectionLost_loop.simps) (simp add: errback_def)
  show ?case
    unfolding step snoc.hyps(1) [OF xs2 d2 c2]
    using ow by (simp add: emit_def)
qed

subsection \<open>The buffer does not matter to handle\<close>

lemma called_buffer [simp]: "called d (s\<lparr>buffer := b\<rparr>) = called d s"
  by (simp add: called_def)

lemma callback_buffer:
  "callback d x (s\<lparr>buffer := b\<rparr>) = (fst (callback d x s), (snd (callback d x s))\<lparr>buffer := b\<rparr>)"
  by (simp add: callback_def emit_def)

lemma del_onwire_buffer:
  "del_onwire k (s\<lparr>buffer := b\<rparr>) = (fst (del_onwire k s), (snd (del_onwire k s))\<lparr>buffer := b\<rparr>)"
  by (simp add: del_onwire_def)

lemma emit_buffer: "emit e (s\<lparr>buffer := b\<rparr>) = (emit e s)\<lparr>buffer := b\<rparr>"
  by (simp add: emit_def)

lemma run_handler_buffer:
  "run_handler h a args kwargs k d (s\<lparr>buffer := b\<rparr>)
     = (fst (run_handler h a args kwargs k d s), (snd (run_handler h a args kwargs k d s))\<lparr>buffer := b\<rparr>)"
  by (simp add: run_handler_def Let_def emit_buffer del_onwire_buffer callback_buffer
        split: prod.splits sum.splits)

lemma handle_buffer:
  "handle m (s\<lparr>buffer := b\<rparr>) = (fst (handle m s), (snd (handle m s))\<lparr>buffer := b\<rparr>)"
proof (cases "map_of (onwire s) (msg_id m)")
  case None
  then show ?thesis
    by (simp add: handle_def unsolicitedNotification_def emit_def)
next
  case (Some en)
  obtain d rc hd ar kw where en: "en = (d, rc, hd, ar, kw)" by (cases en) auto
  note look = Some [unfolded en]
  show ?thesis
  proof (cases hd)
    case None
    show ?thesis
      by (cases "called d s")
        (simp_all add: handle_def unsolicitedNotification_def emit_def look None
          callback_def del_onwire_def)
  next
    case (Some h)
    show ?thesis
    proof (cases ar)
      case None
      then show ?thesis
        by (simp add: handle_def unsolicitedNotification_def emit_def look Some)
    next
      case ar: (Some args)
      show ?thesis
      proof (cases kw)
        case None
        then show ?thesis
          by (simp add: handle_def unsolicitedNotification_def emit_def look Some ar)
      next
        case kw: (Some kwargs)
        show ?thesis
          by (cases "called d s")
            (simp_all add: handle_def unsolicitedNotification_def emit_def look Some ar kw
              run_handler_def callback_def del_onwire_def called_def Let_def)
      qed
    qed
  qed
qed

lemma handle_all_buffer:
  "handle_all ms (s\<lparr>buffer := b\<rparr>) = (fst (handle_all ms s), (snd (handle_all ms s))\<lparr>buffer := b\<rparr>)"
proof (induction ms arbitrary: s)
  case Nil
  show ?case by simp
next
  case (Cons m ms)
  obtain r s' where h: "handle m s = (r, s')" by (cases "handle m s")
  show ?case
    by (cases r) (simp_all add: handle_buffer h Cons.IH)
qed

lemma handle_all_append:
  "handle_all (ms1 @ ms2) s =
     (case handle_all ms1 s of
        (Inl e, s') \<Rightarrow> (Inl e, s')
      | (Inr u, s') \<Rightarrow> handle_all ms2 s')"
proof (induction ms1 arbitrary: s)
  case Nil
  show ?case by simp
next
  case (Cons m ms1)
  obtain r s' where h: "handle m s = (r, s')" by (cases "handle m s")
  show ?case by (cases r) (simp_all add: h Cons.IH)
qed

lemma handle_all_keeps_buffer: "buffer (snd (handle_all ms s)) = buffer s"
proof (induction ms arbitrary: s)
  case Nil
  show ?case by simp
next
  case (Cons m ms)
  obtain r s' where h: "handle m s = (r, s')" by (cases "handle m s")
  with handle_frame [OF h] show ?case by (cases r) (simp_all add: Cons.IH)
qed

text \<open>The loop on a buffer that holds complete frames and then a rest on which the
  decoder reports nothing.\<close>

lemma loop_frames:
  assumes "list_all2 (is_frame dec) fs ms"
    and "try_decode dec t = Inr (None, n)" and "drop n t = t"
  shows "\<exists>s'. dataReceived_loop dec (s\<lparr>buffer := concat fs @ t\<rparr>) = Some (fst (handle_all ms s), s')
            \<and> s'\<lparr>buffer := []\<rparr> = (snd (handle_all ms s))\<lparr>buffer := []\<rparr>
            \<and> (fst (handle_all ms s) = Inr () \<longrightarrow> buffer s' = t)"
  using assms(1)
proof (induction fs ms arbitrary: s rule: list_all2_induct)
  case Nil
  show ?case
    by (subst dataReceived_loop.simps) (simp add: assms(2,3))
next
  case (Cons f fs m ms)
  from Cons.hyps(1) have dec: "dec (f @ concat fs @ t) = Inr (Some m, length f)"
    by (simp add: is_frame_def)
  obtain r s1 where h: "handle m s = (r, s1)" by (cases "handle m s")
  have hb: "handle m (s\<lparr>buffer := concat fs @ t\<rparr>) = (r, s1\<lparr>buffer := concat fs @ t\<rparr>)"
    by (simp add: handle_buffer h)
  show ?case
  proof (cases r)
    case (Inl e)
    show ?thesis
      by (subst dataReceived_loop.simps) (simp add: try_decode_def dec hb h Inl)
  next
    case (Inr u)
    from Cons.IH [of s1] show ?thesis
      by (subst dataReceived_loop.simps) (simp add: try_decode_def dec hb h Inr)
  qed
qed

lemma split_prefix:
  assumes "list_all (\<lambda>f. f \<noteq> []) fs" and "b @ r = concat fs"
  shows "\<exists>fs1 fs2 t. fs = fs1 @ fs2 \<and> b = concat fs1 @ t \<and> t @ r = concat fs2
            \<and> (fs2 \<noteq> [] \<longrightarrow> length t < length (hd fs2))"
  using assms
proof (induction fs arbitrary: b)
  case Nil
  then show ?case by simp
next
  case (Cons f fs)
  show ?case
  proof (cases "length b < length f")
    case True
    have "f # fs = [] @ (f # fs) \<and> b = concat [] @ b \<and> b @ r = concat (f # fs)
            \<and> (f # fs \<noteq> [] \<longrightarrow> length b < length (hd (f # fs)))"
      using True Cons.prems(2) by simp
    then show ?thesis by blast
  next
    case False
    from Cons.prems(2) have "b @ r = f @ concat fs" by simp
    with False obtain b' where b: "b = f @ b'" and b': "b' @ r = concat fs"
      by (auto simp: append_eq_append_conv2)
    from Cons.prems(1) have "list_all (\<lambda>f. f \<noteq> []) fs" by simp
    from Cons.IH [OF this b'] obtain fs1 fs2 t where
      "fs = fs1 @ fs2" "b' = concat fs1 @ t" "t @ r = concat fs2"
      "fs2 \<noteq> [] \<longrightarrow> length t < length (hd fs2)" by blast
    then have "f # fs = (f # fs1) @ fs2 \<and> b = concat (f # fs1) @ t \<and> t @ r = concat fs2
            \<and> (fs2 \<noteq> [] \<longrightarrow> length t < length (hd fs2))"
      using b by simp
    then show ?thesis by blast
  qed
qed

subsection \<open>Feeding complete frames in chunks\<close>

lemma same_but_buffer:
  assumes "s1\<lparr>buffer := []\<rparr> = s2\<lparr>buffer := []\<rparr>"
  shows "s1 = s2\<lparr>buffer := buffer s1\<rparr>"
proof (rule ldap_client.equality)
  show "onwire s1 = onwire (s2\<lparr>buffer := buffer s1\<rparr>)"
    using arg_cong [OF assms, of onwire] by simp
  show "connected s1 = connected (s2\<lparr>buffer := buffer s1\<rparr>)"
    using arg_cong [OF assms, of connected] by simp
  show "events s1 = events (s2\<lparr>buffer := buffer s1\<rparr>)"
    using arg_cong [OF assms, of events] by simp
  show "next_d s1 = next_d (s2\<lparr>buffer := buffer s1\<rparr>)"
    using arg_cong [OF assms, of next_d] by simp
  show "ldap_client.more s1 = ldap_client.more (s2\<lparr>buffer := buffer s1\<rparr>)"
    using arg_cong [OF assms, of ldap_client.more] by simp
qed simp

lemma frames_nonempty: "list_all2 (is_frame dec) fs ms \<Longrightarrow> list_all (\<lambda>f. f \<noteq> []) fs"
  by (induction fs ms rule: list_all2_induct) (simp_all add: is_frame_def)

lemma quiet_rest:
  assumes "list_all2 (is_frame dec) fs2 ms2" and "empty_ok dec"
    and "t @ r = concat fs2" and "fs2 \<noteq> [] \<longrightarrow> length t < length (hd fs2)"
  shows "\<exists>n. try_decode dec t = Inr (None, n) \<and> drop n t = t"
proof (cases "t = []")
  case True
  with assms(2) show ?thesis by (auto simp: empty_ok_def)
next
  case False
  with assms(3) have ne: "fs2 \<noteq> []" by auto
  then obtain f fs' where fs2: "fs2 = f # fs'" by (cases fs2) auto
  with assms(1) obtain m where fr: "is_frame dec f m" by (auto simp: list_all2_Cons1)
  from assms(4) fs2 have lt: "length t < length f" by simp
  from assms(3) fs2 have "t @ r = f @ concat fs'" by simp
  with lt have "t = take (length t) f"
    by (metis append_eq_append_conv_if less_imp_le_nat)
  moreover from fr False lt have "dec (take (length t) f) = Inl BERExceptionInsufficientData"
    by (simp add: is_frame_def)
  ultimately have "dec t = Inl BERExceptionInsufficientData" by simp
  then have "try_decode dec t = Inr (None, 0)" by (simp add: try_decode_def)
  then show ?thesis by simp
qed

lemma feed_frames:
  assumes "list_all2 (is_frame dec) fs ms" and "empty_ok dec"
    and "buffer s = t" and "t @ concat cs = concat fs"
    and "fs \<noteq> [] \<longrightarrow> length t < length (hd fs)"
  shows "\<exists>s'. feed dec cs s = Some (fst (handle_all ms s), s')
            \<and> s'\<lparr>buffer := []\<rparr> = (snd (handle_all ms s))\<lparr>buffer := []\<rparr>
            \<and> (fst (handle_all ms s) = Inr () \<longrightarrow> buffer s' = [])"
  using assms
proof (induction cs arbitrary: s t fs ms)
  case Nil
  have "fs = []"
  proof (rule ccontr)
    assume "fs \<noteq> []"
    then obtain f fs' where "fs = f # fs'" by (cases fs) auto
    with Nil.prems(4,5) show False by auto
  qed
  with Nil.prems show ?case by simp
next
  case (Cons c cs)
  have "(t @ c) @ concat cs = concat fs" using Cons.prems(4) by simp
  from split_prefix [OF frames_nonempty [OF Cons.prems(1)] this]
  obtain fs1 fs2 t' where fs: "fs = fs1 @ fs2" and tc: "t @ c = concat fs1 @ t'"
    and t': "t' @ concat cs = concat fs2" and lt: "fs2 \<noteq> [] \<longrightarrow> length t' < length (hd fs2)"
    by blast
  from Cons.prems(1) fs obtain ms1 ms2 where ms: "ms = ms1 @ ms2"
    and f1: "list_all2 (is_frame dec) fs1 ms1" and f2: "list_all2 (is_frame dec) fs2 ms2"
    by (auto simp: list_all2_append1)
  obtain n where q: "try_decode dec t' = Inr (None, n)" "drop n t' = t'"
    using quiet_rest [OF f2 Cons.prems(2) t' lt] by blast
  obtain r1 s1' where h1: "handle_all ms1 s = (r1, s1')" by (cases "handle_all ms1 s")
  from loop_frames [OF f1 q, of s] h1 obtain s1 where
    loop: "dataReceived_loop dec (s\<lparr>buffer := concat fs1 @ t'\<rparr>) = Some (r1, s1)"
    and same: "s1\<lparr>buffer := []\<rparr> = s1'\<lparr>buffer := []\<rparr>"
    and buf: "r1 = Inr () \<longrightarrow> buffer s1 = t'"
    by auto
  have dr: "dataReceived dec c s = Some (r1, s1)"
    using loop tc Cons.prems(3) by (simp add: dataReceived_def)
  show ?case
  proof (cases r1)
    case (Inl e)
    then show ?thesis using dr same h1 by (simp add: ms handle_all_append)
  next
    case (Inr u)
    with buf have b1: "buffer s1 = t'" by simp
    from Cons.IH [OF f2 Cons.prems(2) b1 t' lt] obtain s' where
      fd: "feed dec cs s1 = Some (fst (handle_all ms2 s1), s')"
      and same': "s'\<lparr>buffer := []\<rparr> = (snd (handle_all ms2 s1))\<lparr>buffer := []\<rparr>"
      and buf': "fst (handle_all ms2 s1) = Inr () \<longrightarrow> buffer s' = []"
      by blast
    have "s1 = s1'\<lparr>buffer := buffer s1\<rparr>" using same by (rule same_but_buffer)
    then have "handle_all ms2 s1 = (fst (handle_all ms2 s1'), (snd (handle_all ms2 s1'))\<lparr>buffer := buffer s1\<rparr>)"
      using handle_all_buffer [where ms = ms2 and s = s1' and b = "buffer s1"] by simp
    then have e1: "fst (handle_all ms2 s1) = fst (handle_all ms2 s1')"
      and e2: "snd (handle_all ms2 s1) = (snd (handle_all ms2 s1'))\<lparr>buffer := buffer s1\<rparr>"
      by simp_all
    have all: "handle_all ms s = handle_all ms2 s1'"
      using h1 Inr by (simp add: ms handle_all_append)
    show ?thesis
      using dr Inr fd same' buf' by (simp add: all e1 e2)
  qed
qed

lemma split_invariance:
  assumes "list_all2 (is_frame dec) fs ms" and "empty_ok dec"
    and "buffer s = []" and "concat cs = concat fs"
  shows "\<exists>r s1 s2. dataReceived dec (concat fs) s = Some (r, s1) \<and> feed dec cs s = Some (r, s2)
            \<and> s1\<lparr>buffer := []\<rparr> = s2\<lparr>buffer := []\<rparr>
            \<and> handle_all ms s = (r, s1\<lparr>buffer := []\<rparr>)
            \<and> (r = Inr () \<longrightarrow> s1 = s2 \<and> buffer s1 = [])"
proof -
  have lt: "fs \<noteq> [] \<longrightarrow> length ([] :: byte list) < length (hd fs)"
    using frames_nonempty [OF assms(1)] by (cases fs) auto
  obtain r s0 where h: "handle_all ms s = (r, s0)" by (cases "handle_all ms s")
  have b0: "buffer s0 = []" using handle_all_keeps_buffer [of ms s] h assms(3) by simp
  from feed_frames [OF assms(1,2,3) _ lt, of cs] assms(4) h obtain s2 where
    2: "feed dec cs s = Some (r, s2)" "s2\<lparr>buffer := []\<rparr> = s0\<lparr>buffer := []\<rparr>"
    "r = Inr () \<longrightarrow> buffer s2 = []" by auto
  from feed_frames [OF assms(1,2,3) _ lt, of "[concat fs]"] h obtain s1 where
    1: "feed dec [concat fs] s = Some (r, s1)" "s1\<lparr>buffer := []\<rparr> = s0\<lparr>buffer := []\<rparr>"
    "r = Inr () \<longrightarrow> buffer s1 = []" by auto
  have d1: "dataReceived dec (concat fs) s = Some (r, s1)"
    using 1(1) by (cases r) (auto split: option.splits prod.splits sum.splits)
  have s0: "s0\<lparr>buffer := []\<rparr> = s0" using b0 by (metis ldap_client.surjective ldap_client.update_convs(2))
  have eq: "r = Inr () \<longrightarrow> s1 = s2"
    using 1(2,3) 2(2,3) same_but_buffer [of s1 s0] same_but_buffer [of s2 s0] by auto
  show ?thesis
    using d1 2(1) 1(2) 2(2) 1(3) h s0 eq by auto
qed

lemma incomplete_retained:
  assumes "dec (buffer s @ recd) = Inl BERExceptionInsufficientData"
  shows "dataReceived dec recd s = Some (Inr (), s\<lparr>buffer := buffer s @ recd\<rparr>)"
  unfolding dataReceived_def
  by (subst dataReceived_loop.simps) (simp add: try_decode_def assms)

subsection \<open>Receiving keeps the invariant; losing the connection\<close>

lemma wf_buffer: "wf_client (s\<lparr>buffer := b\<rparr>) = wf_client s"
  by (simp add: wf_client_def called_def)

lemma wf_dataReceived_loop:
  "dataReceived_loop dec s = Some y \<Longrightarrow> wf_client s \<longrightarrow> wf_client (snd y)"
proof (induction dec s y rule: dataReceived_loop.raw_induct [rotated 1, consumes 1])
  case (1 loop dec s y)
  show ?case
  proof
    assume w: "wf_client s"
    show "wf_client (snd y)"
    proof (cases "try_decode dec (buffer s)")
      case (Inl e)
      with "1.hyps" w show ?thesis by auto
    next
      case (Inr p)
      obtain obj n where p: "p = (obj, n)" by (cases p)
      let ?s1 = "s\<lparr>buffer := drop n (buffer s)\<rparr>"
      have w1: "wf_client ?s1" using w by (simp add: wf_buffer)
      show ?thesis
      proof (cases obj)
        case None
        with "1.hyps" Inr p w1 show ?thesis by auto
      next
        case (Some m)
        obtain r s2 where h: "handle m ?s1 = (r, s2)" by (cases "handle m ?s1")
        have w2: "wf_client s2" using wf_handle [OF w1 h] .
        show ?thesis
        proof (cases r)
          case (Inl e)
          with "1.hyps" Inr p Some h w2 show ?thesis by auto
        next
          case r: (Inr u)
          with "1.hyps" Inr p Some h have "loop dec s2 = Some y" by simp
          from "1.IH" [OF this] w2 show ?thesis by simp
        qed
      qed
    qed
  qed
qed

lemma wf_dataReceived:
  assumes "wf_client s" and "dataReceived dec recd s = Some (r, s')"
  shows "wf_client s'"
  using wf_dataReceived_loop [of dec "s\<lparr>buffer := buffer s @ recd\<rparr>" "(r, s')"] assms
  by (simp add: dataReceived_def wf_buffer)

lemma filter_unique:
  assumes "distinct (map f xs)" and "x \<in> set xs"
  shows "filter (\<lambda>y. f y = f x) xs = [x]"
  using assms
proof (induction xs)
  case Nil
  then show ?case by simp
next
  case (Cons a xs)
  show ?case
  proof (cases "a = x")
    case True
    with Cons.prems(1) have "f x \<notin> f ` set xs" by simp
    then have "\<forall>y \<in> set xs. f y \<noteq> f x" by (metis imageI)
    then have "filter (\<lambda>y. f y = f x) xs = []" by (simp add: filter_empty_conv)
    with True show ?thesis by simp
  next
    case False
    with Cons.prems have "x \<in> set xs" "f a \<noteq> f x" by auto
    with Cons.IH Cons.prems(1) show ?thesis by simp
  qed
qed

lemma connectionLost_eq:
  assumes "wf_client s"
  shows "connectionLost reason s =
           (Inr (), s\<lparr>onwire := [], connected := Some 0,
                      events := events s @ map (\<lambda>kv. Errback (fst (snd kv)) reason) (rev (onwire s))\<rparr>)"
proof -
  let ?s0 = "s\<lparr>connected := Some 0\<rparr>"
  have "distinct (map (fst \<circ> snd) (onwire ?s0))"
    using assms by (simp add: wf_client_def)
  moreover have "list_all (\<lambda>kv. \<not> called (fst (snd kv)) ?s0) (onwire ?s0)"
    using assms by (simp add: wf_client_def called_def list_all_iff)
  ultimately show ?thesis
    unfolding connectionLost_def by (simp add: connectionLost_loop_eq)
qed

lemma fired_below_Errback: "fired_below n (Errback d r) = (d < n)"
  by (simp add: fired_below_def)

lemma wf_connectionLost:
  assumes "wf_client s" and "connectionLost reason s = (r, s')"
  shows "wf_client s'"
proof -
  have "\<forall>kv \<in> set (onwire s). fst (snd kv) < next_d s"
    using assms(1) by (auto simp: wf_client_def list_all_iff)
  then show ?thesis
    using assms unfolding connectionLost_eq [OF assms(1)]
    by (fastforce simp: wf_client_def list_all_iff fired_below_Errback)
qed

lemma errbacks_exactly_once:
  assumes "wf_client s" and "kv \<in> set (onwire s)"
  shows "filter (\<lambda>e. fired e = Some (fst (snd kv)))
           (events s @ map (\<lambda>kv. Errback (fst (snd kv)) reason) (rev (onwire s)))
         = [Errback (fst (snd kv)) reason]"
proof -
  have "\<not> called (fst (snd kv)) s"
    using assms by (auto simp: wf_client_def list_all_iff)
  then have "\<forall>e \<in> set (events s). fired e \<noteq> Some (fst (snd kv))"
    unfolding called_def set_map by (metis imageI)
  then have old: "filter (\<lambda>e. fired e = Some (fst (snd kv))) (events s) = []"
    by (simp add: filter_empty_conv)
  have "distinct (map (fst \<circ> snd) (rev (onwire s)))" "kv \<in> set (rev (onwire s))"
    using assms by (simp_all add: wf_client_def rev_map [symmetric])
  from filter_unique [OF this]
  have "filter (\<lambda>y. fst (snd y) = fst (snd kv)) (rev (onwire s)) = [kv]" by simp
  then have new: "filter (\<lambda>e. fired e = Some (fst (snd kv)))
                   (map (\<lambda>kv. Errback (fst (snd kv)) reason) (rev (onwire s)))
                 = [Errback (fst (snd kv)) reason]"
    by (simp add: filter_map comp_def)
  show ?thesis by (simp add: old new)
qed

lemma wf_priv_startTLS:
  assumes "wf_client s" and "priv_startTLS c mid s = (r, s')"
  shows "wf_client s'"
proof (cases "truthy (connected s) \<and> onwire s = []")
  case False
  with assms show ?thesis by (auto simp: priv_startTLS_def split: if_splits)
next
  case True
  obtain r1 s1 where sd: "send LDAPStartTLSRequest None None False mid s = (r1, s1)"
    by (cases "send LDAPStartTLSRequest None None False mid s")
  have w1: "wf_client s1" using wf_send [OF assms(1) sd] .
  show ?thesis
  proof (cases r1)
    case (Inl e)
    with assms(2) True sd w1 show ?thesis by (simp add: priv_startTLS_def)
  next
    case (Inr d)
    with assms(2) True sd wf_emit [OF w1, of "AddCallbackStartTLS d c"] show ?thesis
      by (auto simp: priv_startTLS_def)
  qed
qed

lemma wf_priv_cbStartTLS:
  assumes "wf_client s" and "priv_cbStartTLS K msg c s = (r, s')"
  shows "wf_client s'"
  using assms wf_emit [OF assms(1), of "TransportStartTLS c"]
  by (auto simp: priv_cbStartTLS_def split: protocol_op.splits ldap_response.splits if_splits)

lemma send_registers:
  assumes "truthy (connected s)" and "map_of (onwire s) mid = None" and "needs_answer op"
  shows "send op controls handler return_controls mid s =
    (Inr (next_d s),
     s\<lparr>onwire := onwire s @
          [(mid, if handler \<noteq> None
                 then (next_d s, return_controls, handler, Some (PyList []), Some [])
                 else (next_d s, return_controls, None, None, None))],
       events := events s @
          [TransportWrite \<lparr>msg_id = mid, msg_value = Request op, msg_controls = controls\<rparr>],
       next_d := Suc (next_d s)\<rparr>)"
  using assms
  by (simp add: send_def priv_send_def register_def new_Deferred_def emit_def update_fresh)

section \<open>The properties of the LDAP client\<close>

subsection \<open>Receiving\<close>

lemma example_frame_7: "is_frame example_decoder [2, 7, 0]
    \<lparr>msg_id = 7, msg_value = Response (LDAPOtherResponse []), msg_controls = None\<rparr>"
  unfolding is_frame_def
proof (intro conjI allI impI)
  show "[2, 7, 0 :: byte] \<noteq> []" by simp
next
  fix ext
  show "example_decoder ([2, 7, 0] @ ext) =
          Inr (Some \<lparr>msg_id = 7, msg_value = Response (LDAPOtherResponse []), msg_controls = None\<rparr>,
               length [2, 7, 0 :: byte])"
    by (simp add: example_decoder_def)
next
  fix n :: nat
  assume "0 < n \<and> n < length [2, 7, 0 :: byte]"
  then have "n = 1 \<or> n = 2" by auto
  then show "example_decoder (take n [2, 7, 0]) = Inl BERExceptionInsufficientData"
  proof
    assume "n = 1"
    then show ?thesis by (simp add: example_decoder_def)
  next
    assume "n = 2"
    then show ?thesis by (simp add: example_decoder_def)
  qed
qed

lemma example_frame_0: "is_frame example_decoder [1, 0]
    \<lparr>msg_id = 0, msg_value = Response (LDAPOtherResponse []), msg_controls = None\<rparr>"
  unfolding is_frame_def
proof (intro conjI allI impI)
  show "[1, 0 :: byte] \<noteq> []" by simp
next
  fix ext
  show "example_decoder ([1, 0] @ ext) =
          Inr (Some \<lparr>msg_id = 0, msg_value = Response (LDAPOtherResponse []), msg_controls = None\<rparr>,
               length [1, 0 :: byte])"
    by (simp add: example_decoder_def)
next
  fix n :: nat
  assume "0 < n \<and> n < length [1, 0 :: byte]"
  then have "n = 1" by auto
  then show "example_decoder (take n [1, 0]) = Inl BERExceptionInsufficientData"
    by (simp add: example_decoder_def)
qed

lemma example_empty_ok: "empty_ok example_decoder"
  by (simp add: empty_ok_def try_decode_def example_decoder_def)

text \<open>
  C1. Let the bytes \<open>concat fs\<close> be complete frames that encode the messages \<open>ms\<close>, and
  let the buffer be empty. Delivered in one piece or cut into the chunks \<open>cs\<close> at any
  positions, \<open>dataReceived\<close> ends, hands exactly the messages \<open>ms\<close> to \<open>handle\<close> in their
  order (up to the first one on which \<open>handle\<close> raises, where the exception leaves
  \<open>dataReceived\<close> and no further chunk is delivered), and ends in the same state but for
  the bytes still buffered after an exception; when nothing raises the states are equal
  and the buffer is empty. And when the decoder reports insufficient data on the buffer,
  the buffer is kept as it is, no message is handled and no error is raised.
\<close>

theorem dataReceived_split_invariance:
  "(list_all2 (is_frame dec) fs ms \<and> empty_ok dec \<and> buffer s = [] \<and> concat cs = concat fs \<longrightarrow>
      (\<exists>r s1 s2. dataReceived dec (concat fs) s = Some (r, s1) \<and> feed dec cs s = Some (r, s2)
            \<and> s1\<lparr>buffer := []\<rparr> = s2\<lparr>buffer := []\<rparr>
            \<and> handle_all ms s = (r, s1\<lparr>buffer := []\<rparr>)
            \<and> (r = Inr () \<longrightarrow> s1 = s2 \<and> buffer s1 = [])))
   \<and> (dec (buffer s @ recd) = Inl BERExceptionInsufficientData \<longrightarrow>
        dataReceived dec recd s = Some (Inr (), s\<lparr>buffer := buffer s @ recd\<rparr>))"
  using split_invariance [of dec fs ms s cs] incomplete_retained [of dec s recd] by blast

theorem dataReceived_split_invariance_witness:
  "(let s = \<lparr>onwire = [(7, (0, False, None, None, None))], buffer = [], connected = Some 1,
              events = [], next_d = 1\<rparr>;
        m7 = \<lparr>msg_id = 7, msg_value = Response (LDAPOtherResponse []), msg_controls = None\<rparr>;
        m0 = \<lparr>msg_id = 0, msg_value = Response (LDAPOtherResponse []), msg_controls = None\<rparr>
    in list_all2 (is_frame example_decoder) [[2, 7, 0], [1, 0]] [m7, m0]
       \<and> empty_ok example_decoder \<and> buffer s = []
       \<and> concat [[2], [7, 0, 1], [0]] = concat [[2, 7, 0], [1, 0 :: byte]]
       \<and> (\<exists>s'. dataReceived example_decoder (concat [[2, 7, 0], [1, 0]]) s = Some (Inr (), s')
              \<and> feed example_decoder [[2], [7, 0, 1], [0]] s = Some (Inr (), s')
              \<and> events s' = [Callback 0 (PValue (msg_value m7)), UnsolicitedNotification (msg_value m0)])
       \<and> example_decoder (buffer s @ [2, 7]) = Inl BERExceptionInsufficientData
       \<and> dataReceived example_decoder [2, 7] s = Some (Inr (), s\<lparr>buffer := [2, 7]\<rparr>))"
proof -
  let ?s = "\<lparr>onwire = [(7, (0, False, None, None, None))], buffer = [], connected = Some 1,
              events = [], next_d = 1\<rparr>"
  let ?m7 = "\<lparr>msg_id = 7, msg_value = Response (LDAPOtherResponse []), msg_controls = None\<rparr>"
  let ?m0 = "\<lparr>msg_id = 0, msg_value = Response (LDAPOtherResponse []), msg_controls = None\<rparr>"
  let ?fs = "[[2, 7, 0], [1, 0 :: byte]]" and ?cs = "[[2], [7, 0, 1], [0 :: byte]]"
  have fr: "list_all2 (is_frame example_decoder) ?fs [?m7, ?m0]"
    using example_frame_7 example_frame_0 by simp
  have cc: "concat ?cs = concat ?fs" by simp
  have ins: "example_decoder (buffer ?s @ [2, 7]) = Inl BERExceptionInsufficientData"
    by (simp add: example_decoder_def)
  have ha: "handle_all [?m7, ?m0] ?s =
      (Inr (), ?s\<lparr>onwire := [], events := [Callback 0 (PValue (msg_value ?m7)),
                                            UnsolicitedNotification (msg_value ?m0)]\<rparr>)"
    by (simp add: handle_def callback_def called_def del_onwire_def emit_def
          unsolicitedNotification_def)
  note inst = dataReceived_split_invariance [of example_decoder ?fs "[?m7, ?m0]" ?s ?cs "[2, 7]"]
  from inst fr example_empty_ok cc obtain r s1 s2 where
    1: "dataReceived example_decoder (concat ?fs) ?s = Some (r, s1)"
    and 2: "feed example_decoder ?cs ?s = Some (r, s2)"
    and 3: "handle_all [?m7, ?m0] ?s = (r, s1\<lparr>buffer := []\<rparr>)"
    and 4: "r = Inr () \<longrightarrow> s1 = s2 \<and> buffer s1 = []"
    by auto
  from 3 ha have r: "r = Inr ()" and ev: "events (s1\<lparr>buffer := []\<rparr>) =
      [Callback 0 (PValue (msg_value ?m7)), UnsolicitedNotification (msg_value ?m0)]"
    by simp_all
  from inst ins have 5: "dataReceived example_decoder [2, 7] ?s = Some (Inr (), ?s\<lparr>buffer := [2, 7]\<rparr>)"
    by simp
  have "\<exists>s'. dataReceived example_decoder (concat ?fs) ?s = Some (Inr (), s')
              \<and> feed example_decoder ?cs ?s = Some (Inr (), s')
              \<and> events s' = [Callback 0 (PValue (msg_value ?m7)), UnsolicitedNotification (msg_value ?m0)]"
    using 1 2 4 r ev by auto
  with fr example_empty_ok cc ins 5 show ?thesis
    unfolding Let_def by simp
qed

subsection \<open>Dispatching responses\<close>

text \<open>
  C2. An operation registered without handler (the entry that \<open>send\<close> with
  \<open>handler=None\<close> makes, see \<open>send_registers\<close>): the response with its id fires the
  Deferred of the operation once, with the value of the message, or with the pair of the
  value and the controls when \<open>return_controls\<close> was asked for, and deletes the entry, so
  that the id is no key of \<open>onwire\<close> afterwards.
\<close>

theorem handle_single_response:
  assumes "wf_client s"
    and "map_of (onwire s) (msg_id m) = Some (d, return_controls, None, None, None)"
    and "msg_id m \<noteq> 0"
    and "is_LDAPProtocolResponse (msg_value m)"
  shows "handle m s =
           (Inr (), s\<lparr>onwire := AList.delete (msg_id m) (onwire s),
                      events := events s @
                        [Callback d (if return_controls then PPair (msg_value m) (msg_controls m)
                                     else PValue (msg_value m))]\<rparr>)
         \<and> map_of (onwire (snd (handle m s))) (msg_id m) = None"
  unfolding handle_no_handler_eq [OF assms] by (simp add: map_of_delete_self)

theorem handle_single_response_witness:
  "(let s0 = connectionMade ldap_client_init;
        s1 = snd (send \<lparr>rq_name = ''LDAPBindRequest'', needs_answer = True\<rparr> None None False 7 s0);
        m = \<lparr>msg_id = 7, msg_value = Response (LDAPBindResponse 0 [] [] None None),
             msg_controls = None\<rparr>
    in wf_client s1
       \<and> map_of (onwire s1) 7 = Some (0, False, None, None, None)
       \<and> handle m s1 = (Inr (), s1\<lparr>onwire := [],
             events := events s1 @ [Callback 0 (PValue (Response (LDAPBindResponse 0 [] [] None None)))]\<rparr>)
       \<and> map_of (onwire (snd (handle m s1))) 7 = None)"
proof -
  let ?s0 = "connectionMade ldap_client_init"
  let ?op = "\<lparr>rq_name = ''LDAPBindRequest'', needs_answer = True\<rparr>"
  let ?s1 = "snd (send ?op None None False 7 ?s0)"
  let ?m = "\<lparr>msg_id = 7, msg_value = Response (LDAPBindResponse 0 [] [] None None),
             msg_controls = None\<rparr>"
  have s1: "?s1 = \<lparr>onwire = [(7, (0, False, None, None, None))], buffer = [], connected = Some 1,
       events = [TransportWrite \<lparr>msg_id = 7, msg_value = Request ?op, msg_controls = None\<rparr>],
       next_d = Suc 0\<rparr>"
    by (simp add: send_registers connectionMade_def ldap_client_init_def truthy_def)
  have w: "wf_client ?s1"
    unfolding s1 by (simp add: wf_client_def called_def fired_below_def truthy_def)
  have l: "map_of (onwire ?s1) (msg_id ?m) = Some (0, False, None, None, None)"
    unfolding s1 by simp
  show ?thesis
    unfolding Let_def s1 using handle_single_response [OF w l, unfolded s1] w [unfolded s1] by simp
qed

lemma handle_with_handler_eq:
  assumes "wf_client s"
    and "map_of (onwire s) (msg_id m) = Some (d, return_controls, Some h, Some args, Some kwargs)"
    and "msg_id m \<noteq> 0"
    and "is_LDAPProtocolResponse (msg_value m)"
    and "a = (if return_controls then Args2 (msg_value m) (msg_controls m) else Args1 (msg_value m))"
  shows "handle m s =
     (if h a args kwargs
      then (Inr (), s\<lparr>onwire := AList.delete (msg_id m) (onwire s),
                      events := events s @ [HandlerCall (msg_id m) a, Callback d PNone]\<rparr>)
      else (Inr (), s\<lparr>events := events s @ [HandlerCall (msg_id m) a]\<rparr>))"
proof -
  have nc: "\<not> called d s" using wf_entry_not_called [OF assms(1,2)] .
  then have nc': "\<not> called d (s\<lparr>onwire := AList.delete (msg_id m) (onwire s), events := events s @ [HandlerCall (msg_id m) a]\<rparr>)"
    by (simp add: called_def)
  show ?thesis
    using assms(2,3,4,5) nc nc'
    by (simp add: handle_def run_handler_def callback_def del_onwire_def emit_def called_def)
qed

text \<open>
  C4. An operation registered with a handler: each response with its id calls the
  handler, with the value of the message and, when \<open>return_controls\<close> is set, its
  controls. When the handler returns false the entry stays and the Deferred does not
  fire; when it returns true the entry is deleted and the Deferred fires with \<open>None\<close>.
  The witness runs a handler that answers false, false and true: it is called three
  times and the Deferred fires after the third call only.
\<close>

theorem handle_streaming_handler:
  assumes "wf_client s"
    and "map_of (onwire s) (msg_id m) = Some (d, return_controls, Some h, Some args, Some kwargs)"
    and "msg_id m \<noteq> 0"
    and "is_LDAPProtocolResponse (msg_value m)"
    and "a = (if return_controls then Args2 (msg_value m) (msg_controls m) else Args1 (msg_value m))"
  shows "handle m s =
     (if h a args kwargs
      then (Inr (), s\<lparr>onwire := AList.delete (msg_id m) (onwire s),
                      events := events s @ [HandlerCall (msg_id m) a, Callback d PNone]\<rparr>)
      else (Inr (), s\<lparr>events := events s @ [HandlerCall (msg_id m) a]\<rparr>))
     \<and> (map_of (onwire (snd (handle m s))) (msg_id m) = None) = h a args kwargs
     \<and> called d (snd (handle m s)) = h a args kwargs"
proof -
  have nc: "\<not> called d s" using wf_entry_not_called [OF assms(1,2)] .
  show ?thesis
    unfolding handle_with_handler_eq [OF assms]
    using nc assms(2) by (simp add: map_of_delete_self called_def)
qed

theorem handle_streaming_handler_witness:
  "(let h = (\<lambda>a args kwargs. a = Args1 (Response (LDAPOtherResponse ''done'')));
        s0 = connectionMade ldap_client_init;
        s1 = snd (send \<lparr>rq_name = ''LDAPSearchRequest'', needs_answer = True\<rparr> None (Some h) False 7 s0);
        e1 = \<lparr>msg_id = 7, msg_value = Response (LDAPOtherResponse ''entry1''), msg_controls = None\<rparr>;
        e2 = \<lparr>msg_id = 7, msg_value = Response (LDAPOtherResponse ''entry2''), msg_controls = None\<rparr>;
        e3 = \<lparr>msg_id = 7, msg_value = Response (LDAPOtherResponse ''done''), msg_controls = None\<rparr>;
        s2 = snd (handle e1 s1);
        s3 = snd (handle e2 s2);
        s4 = snd (handle e3 s3)
    in wf_client s1 \<and> wf_client s2 \<and> wf_client s3
       \<and> map_of (onwire s1) 7 = Some (0, False, Some h, Some (PyList []), Some [])
       \<and> map_of (onwire s2) 7 = Some (0, False, Some h, Some (PyList []), Some [])
       \<and> map_of (onwire s3) 7 = Some (0, False, Some h, Some (PyList []), Some [])
       \<and> \<not> called 0 s2 \<and> \<not> called 0 s3 \<and> called 0 s4
       \<and> onwire s4 = []
       \<and> events s4 = events s1 @
            [HandlerCall 7 (Args1 (msg_value e1)), HandlerCall 7 (Args1 (msg_value e2)),
             HandlerCall 7 (Args1 (msg_value e3)), Callback 0 PNone])"
proof -
  let ?h = "(\<lambda>a args kwargs. a = Args1 (Response (LDAPOtherResponse ''done''))) :: handler"
  let ?s0 = "connectionMade ldap_client_init"
  let ?op = "\<lparr>rq_name = ''LDAPSearchRequest'', needs_answer = True\<rparr>"
  let ?s1 = "snd (send ?op None (Some ?h) False 7 ?s0)"
  let ?e1 = "\<lparr>msg_id = 7, msg_value = Response (LDAPOtherResponse ''entry1''), msg_controls = None\<rparr>"
  let ?e2 = "\<lparr>msg_id = 7, msg_value = Response (LDAPOtherResponse ''entry2''), msg_controls = None\<rparr>"
  let ?e3 = "\<lparr>msg_id = 7, msg_value = Response (LDAPOtherResponse ''done''), msg_controls = None\<rparr>"
  let ?en = "(0 :: nat, False, Some ?h, Some (PyList []), Some ([] :: pykwargs))"
  let ?w = "TransportWrite \<lparr>msg_id = 7, msg_value = Request ?op, msg_controls = None\<rparr>"
  let ?t1 = "\<lparr>onwire = [(7, ?en)], buffer = [], connected = Some 1, events = [?w], next_d = Suc 0\<rparr>"
  let ?t2 = "?t1\<lparr>events := [?w, HandlerCall 7 (Args1 (msg_value ?e1))]\<rparr>"
  let ?t3 = "?t1\<lparr>events := [?w, HandlerCall 7 (Args1 (msg_value ?e1)), HandlerCall 7 (Args1 (msg_value ?e2))]\<rparr>"
  have s1: "?s1 = ?t1"
    by (simp add: send_registers connectionMade_def ldap_client_init_def truthy_def)
  have w1: "wf_client ?t1" and w2: "wf_client ?t2" and w3: "wf_client ?t3"
    by (simp_all add: wf_client_def called_def fired_below_def truthy_def)
  have l1: "map_of (onwire ?t1) (msg_id ?e1) = Some ?en"
    and l2: "map_of (onwire ?t2) (msg_id ?e2) = Some ?en"
    and l3: "map_of (onwire ?t3) (msg_id ?e3) = Some ?en"
    by simp_all
  have h1: "handle ?e1 ?t1 = (Inr (), ?t2)"
    using handle_streaming_handler [OF w1 l1, of "Args1 (msg_value ?e1)"] by simp
  have h2: "handle ?e2 ?t2 = (Inr (), ?t3)"
    using handle_streaming_handler [OF w2 l2, of "Args1 (msg_value ?e2)"] by simp
  have h3: "handle ?e3 ?t3 = (Inr (), ?t3\<lparr>onwire := [], events := events ?t3 @
              [HandlerCall 7 (Args1 (msg_value ?e3)), Callback 0 PNone]\<rparr>)"
    using handle_streaming_handler [OF w3 l3, of "Args1 (msg_value ?e3)"] by simp
  show ?thesis
    unfolding Let_def s1 h1 snd_conv h2 h3
    using w1 w2 w3 by (simp add: called_def)
qed

text \<open>
  C9. A message whose id is neither 0 nor a key of \<open>onwire\<close> makes \<open>handle\<close> raise (the
  \<open>KeyError\<close> of \<open>self.onwire[msg.id]\<close> for a response) and changes nothing: no Deferred
  fires and no entry is removed. When \<open>dataReceived\<close> decodes such a message, the
  exception leaves \<open>dataReceived\<close>, with the frame taken off the buffer.
\<close>

theorem handle_unknown_id_raises:
  assumes "msg_id m \<noteq> 0" and "map_of (onwire s) (msg_id m) = None"
  shows "(\<exists>e. handle m s = (Inl e, s)
             \<and> (is_LDAPProtocolResponse (msg_value m) \<longrightarrow> e = KeyError (msg_id m))
             \<and> (dec (buffer s @ recd) = Inr (Some m, n) \<longrightarrow>
                  dataReceived dec recd s = Some (Inl e, s\<lparr>buffer := drop n (buffer s @ recd)\<rparr>)))"
proof -
  let ?e = "if is_LDAPProtocolResponse (msg_value m) then KeyError (msg_id m) else AssertionError"
  have h: "handle m s' = (Inl ?e, s')" if "onwire s' = onwire s" for s'
    using assms that by (simp add: handle_def)
  have "dataReceived dec recd s = Some (Inl ?e, s\<lparr>buffer := drop n (buffer s @ recd)\<rparr>)"
    if "dec (buffer s @ recd) = Inr (Some m, n)"
    unfolding dataReceived_def
    by (subst dataReceived_loop.simps) (simp add: try_decode_def that h)
  with h [of s] show ?thesis by auto
qed

theorem handle_unknown_id_raises_witness:
  "(let s = \<lparr>onwire = [(7, (0, False, None, None, None))], buffer = [], connected = Some 1,
              events = [], next_d = 1\<rparr>;
        m = \<lparr>msg_id = 9, msg_value = Response (LDAPOtherResponse []), msg_controls = None\<rparr>
    in msg_id m \<noteq> 0 \<and> map_of (onwire s) (msg_id m) = None
       \<and> handle m s = (Inl (KeyError 9), s)
       \<and> dataReceived example_decoder [2, 9, 0] s = Some (Inl (KeyError 9), s))"
proof -
  let ?s = "\<lparr>onwire = [(7, (0, False, None, None, None))], buffer = [], connected = Some 1,
              events = [], next_d = 1\<rparr>"
  let ?m = "\<lparr>msg_id = 9, msg_value = Response (LDAPOtherResponse []), msg_controls = None\<rparr>"
  have a: "msg_id ?m \<noteq> 0" and b: "map_of (onwire ?s) (msg_id ?m) = None" by simp_all
  have d: "example_decoder (buffer ?s @ [2, 9, 0]) = Inr (Some ?m, 3)"
    by (simp add: example_decoder_def)
  from handle_unknown_id_raises [OF a b, of example_decoder "[2, 9, 0]" 3] d
  show ?thesis unfolding Let_def by auto
qed

subsection \<open>Losing the connection\<close>

text \<open>
  C3. \<open>connectionLost(reason)\<close> sets \<open>connected\<close> to 0, empties \<open>onwire\<close> and calls
  \<open>errback(reason)\<close> on the Deferred of every entry, last inserted first: in the trace
  afterwards the one firing of each of these Deferreds is that errback. Called again at
  once, it changes nothing and fires nothing.
\<close>

theorem connectionLost_fails_all:
  assumes "wf_client s"
  shows "connectionLost reason s =
           (Inr (), s\<lparr>onwire := [], connected := Some 0,
                      events := events s @ map (\<lambda>kv. Errback (fst (snd kv)) reason) (rev (onwire s))\<rparr>)
       \<and> (\<forall>kv \<in> set (onwire s).
            filter (\<lambda>e. fired e = Some (fst (snd kv))) (events (snd (connectionLost reason s)))
              = [Errback (fst (snd kv)) reason])
       \<and> connectionLost reason (snd (connectionLost reason s)) = (Inr (), snd (connectionLost reason s))"
proof -
  let ?s' = "s\<lparr>onwire := [], connected := Some 0,
                      events := events s @ map (\<lambda>kv. Errback (fst (snd kv)) reason) (rev (onwire s))\<rparr>"
  have 1: "connectionLost reason s = (Inr (), ?s')" using connectionLost_eq [OF assms] .
  have 2: "connectionLost reason ?s' = (Inr (), ?s')"
    unfolding connectionLost_def by (subst connectionLost_loop.simps) simp
  show ?thesis
    unfolding 1 using 2 errbacks_exactly_once [OF assms] by simp
qed

theorem connectionLost_fails_all_witness:
  "(let s = \<lparr>onwire = [(7, (0, False, None, None, None)), (9, (1, True, None, None, None))],
              buffer = [], connected = Some 1, events = [], next_d = 2\<rparr>
    in wf_client s
       \<and> connectionLost ''closed'' s =
            (Inr (), \<lparr>onwire = [], buffer = [], connected = Some 0,
                      events = [Errback 1 ''closed'', Errback 0 ''closed''], next_d = 2\<rparr>)
       \<and> connectionLost ''closed'' (snd (connectionLost ''closed'' s))
            = (Inr (), snd (connectionLost ''closed'' s)))"
proof -
  let ?s = "\<lparr>onwire = [(7, (0, False, None, None, None)), (9, (1, True, None, None, None))],
              buffer = [], connected = Some 1, events = [], next_d = 2\<rparr>"
  have w: "wf_client ?s"
    by (simp add: wf_client_def called_def truthy_def)
  let ?s' = "\<lparr>onwire = [], buffer = [], connected = Some 0,
                      events = [Errback 1 ''closed'', Errback 0 ''closed''], next_d = 2\<rparr>"
  note t = connectionLost_fails_all [OF w, of "''closed''"]
  have e1: "connectionLost ''closed'' ?s = (Inr (), ?s')" using t by simp
  have e2: "connectionLost ''closed'' ?s' = (Inr (), ?s')" using t unfolding e1 by simp
  show ?thesis unfolding Let_def using w e1 e2 by simp
qed

subsection \<open>STARTTLS\<close>

text \<open>
  C6. \<open>_startTLS\<close> with an operation outstanding raises \<open>LDAPStartTLSBusyError\<close>, which
  carries \<open>onwire\<close>, and leaves the client as it was: connected, with the same entries,
  nothing written and no TLS asked of the transport.
\<close>

theorem startTLS_busy_when_outstanding:
  assumes "wf_client s" and "onwire s \<noteq> []"
  shows "priv_startTLS c mid s = (Inl (LDAPStartTLSBusyError (onwire s)), s) \<and> truthy (connected s)"
  using assms by (simp add: priv_startTLS_def wf_client_def)

theorem startTLS_busy_when_outstanding_witness:
  "(let s = \<lparr>onwire = [(7, (0, False, None, None, None))], buffer = [], connected = Some 1,
              events = [], next_d = 1\<rparr>
    in wf_client s \<and> onwire s \<noteq> []
       \<and> priv_startTLS ''ctx'' 8 s = (Inl (LDAPStartTLSBusyError [(7, (0, False, None, None, None))]), s))"
proof -
  let ?s = "\<lparr>onwire = [(7, (0, False, None, None, None))], buffer = [], connected = Some 1,
              events = [], next_d = 1\<rparr>"
  have w: "wf_client ?s"
    by (simp add: wf_client_def called_def truthy_def)
  have n: "onwire ?s \<noteq> []" by simp
  from startTLS_busy_when_outstanding [OF w n, of "''ctx''" 8] w show ?thesis
    unfolding Let_def by simp
qed

text \<open>
  C7. \<open>_cbStartTLS\<close> on an extended response (without referral, as the method asserts):
  a result code other than success raises the exception that \<open>ldaperrors.get\<close> makes of
  the code and the message; success with a \<open>responseName\<close> other than the OID of
  STARTTLS raises \<open>LDAPStartTLSInvalidResponseName\<close>; otherwise the transport is asked to
  start TLS. On every value the Deferred can fire with, the method either asks for TLS
  and returns, or raises and leaves the client and the transport alone; it asks for TLS
  only when both checks passed.
\<close>

theorem cbStartTLS_validates_before_handshake:
  "(msg = Response (LDAPExtendedResponse resultCode matchedDN errorMessage None responseName response) \<longrightarrow>
      (resultCode \<noteq> Success_resultCode K \<longrightarrow>
         priv_cbStartTLS K msg c s = (Inl (LDAPResultError resultCode errorMessage), s))
    \<and> (resultCode = Success_resultCode K \<and> responseName = Some n \<and> n \<noteq> LDAPStartTLSResponse_oid K \<longrightarrow>
         priv_cbStartTLS K msg c s = (Inl (LDAPStartTLSInvalidResponseName n), s))
    \<and> (resultCode = Success_resultCode K
          \<and> (responseName = None \<or> responseName = Some (LDAPStartTLSResponse_oid K)) \<longrightarrow>
         priv_cbStartTLS K msg c s = (Inr (), emit (TransportStartTLS c) s)))
   \<and> (priv_cbStartTLS K msg c s = (Inr (), emit (TransportStartTLS c) s)
       \<or> (\<exists>e. priv_cbStartTLS K msg c s = (Inl e, s)))
   \<and> (fst (priv_cbStartTLS K msg c s) = Inr () \<longrightarrow>
        (\<exists>dn em rn rv. msg = Response (LDAPExtendedResponse (Success_resultCode K) dn em None rn rv)
            \<and> (rn = None \<or> rn = Some (LDAPStartTLSResponse_oid K))))"
  by (auto simp: priv_cbStartTLS_def split: protocol_op.splits ldap_response.splits)

theorem cbStartTLS_validates_before_handshake_witness:
  "(let K = \<lparr>Success_resultCode = 0, LDAPStartTLSResponse_oid = ''1.3.6.1.4.1.1466.20037''\<rparr>;
        s = connectionMade ldap_client_init
    in priv_cbStartTLS K (Response (LDAPExtendedResponse 2 [] ''protocol error'' None None None)) ''ctx'' s
         = (Inl (LDAPResultError 2 ''protocol error''), s)
       \<and> priv_cbStartTLS K (Response (LDAPExtendedResponse 0 [] [] None (Some ''1.2.3'') None)) ''ctx'' s
         = (Inl (LDAPStartTLSInvalidResponseName ''1.2.3''), s)
       \<and> priv_cbStartTLS K (Response (LDAPExtendedResponse 0 [] [] None
              (Some ''1.3.6.1.4.1.1466.20037'') None)) ''ctx'' s
         = (Inr (), emit (TransportStartTLS ''ctx'') s))"
proof -
  let ?K = "\<lparr>Success_resultCode = 0, LDAPStartTLSResponse_oid = ''1.3.6.1.4.1.1466.20037''\<rparr>"
  let ?s = "connectionMade ldap_client_init"
  note a = cbStartTLS_validates_before_handshake
    [of "Response (LDAPExtendedResponse 2 [] ''protocol error'' None None None)"
        2 "[]" "''protocol error''" None None ?K "''ctx''" ?s]
  note b = cbStartTLS_validates_before_handshake
    [of "Response (LDAPExtendedResponse 0 [] [] None (Some ''1.2.3'') None)"
        0 "[]" "[]" "Some ''1.2.3''" None ?K "''ctx''" ?s "''1.2.3''"]
  note c = cbStartTLS_validates_before_handshake
    [of "Response (LDAPExtendedResponse 0 [] [] None (Some ''1.3.6.1.4.1.1466.20037'') None)"
        0 "[]" "[]" "Some ''1.3.6.1.4.1.1466.20037''" None ?K "''ctx''" ?s]
  from a b c show ?thesis unfolding Let_def by simp
qed

section \<open>The properties of the RADIUS client module\<close>

text \<open>
  C5. When \<open>pass_through_all\<close> is false, the names that \<open>authenticate\<close> selects for the
  AuthResult are the configured names and \<open>MS_CHAP2_RESPONSE_ATTRS\<close>, and no other; on an
  Access-Accept or Access-Reject the result is built from the response with exactly
  these names, so its attributes are the attributes of the response among them. The
  witness is the case of the allow-list \<open>A\<close>, the response with \<open>A\<close>, \<open>B\<close>, \<open>M1\<close>, \<open>M2\<close>
  and the MS-CHAPv2 attributes \<open>M1\<close>, \<open>M2\<close>: the result holds \<open>A\<close>, \<open>M1\<close>, \<open>M2\<close>, not \<open>B\<close>.
\<close>

theorem authenticate_pass_through_names:
  assumes "\<not> pass_through_all M"
  shows "set (selected_attr_names R M p) = set (pass_through_attr_names M) \<union> set (MS_CHAP2_RESPONSE_ATTRS R)
     \<and> (pkt_code p = AccessAccept R \<or> pkt_code p = AccessReject R \<longrightarrow>
          authenticate R M (Inr p) =
            Inr (from_radius_packet R p (pass_through_attr_names M @ MS_CHAP2_RESPONSE_ATTRS R))
          \<and> fst ` set (attributes (from_radius_packet R p (selected_attr_names R M p)))
              = fst ` set (pkt_attrs p) \<inter> (set (pass_through_attr_names M) \<union> set (MS_CHAP2_RESPONSE_ATTRS R)))"
  using assms
  by (auto simp: selected_attr_names_def authenticate_def from_radius_packet_def)

theorem authenticate_pass_through_names_witness:
  "(let R = \<lparr>AccessAccept = 2, AccessReject = 3, MS_CHAP2_RESPONSE_ATTRS = [''M1'', ''M2'']\<rparr>;
        M = \<lparr>pass_through_attr_names = [''A''], pass_through_all = False\<rparr>;
        p = \<lparr>pkt_code = 2, pkt_attrs = [(''A'', [''a'']), (''B'', [''b'']), (''M1'', [''x'']), (''M2'', [''y''])]\<rparr>
    in \<not> pass_through_all M
       \<and> selected_attr_names R M p = [''A'', ''M1'', ''M2'']
       \<and> authenticate R M (Inr p) =
            Inr \<lparr>accepted = True,
                 attributes = [(''A'', [''a'']), (''M1'', [''x'']), (''M2'', [''y''])],
                 rawCode = 2\<rparr>)"
proof -
  let ?R = "\<lparr>AccessAccept = 2, AccessReject = 3, MS_CHAP2_RESPONSE_ATTRS = [''M1'', ''M2'']\<rparr>"
  let ?M = "\<lparr>pass_through_attr_names = [''A''], pass_through_all = False\<rparr>"
  let ?p = "\<lparr>pkt_code = 2, pkt_attrs = [(''A'', [''a'']), (''B'', [''b'']), (''M1'', [''x'']), (''M2'', [''y''])]\<rparr>"
  have n: "\<not> pass_through_all ?M" by simp
  have sel: "selected_attr_names ?R ?M ?p = [''A'', ''M1'', ''M2'']"
    by (simp add: selected_attr_names_def)
  from authenticate_pass_through_names [OF n, of ?R ?p]
  have "authenticate ?R ?M (Inr ?p) = Inr (from_radius_packet ?R ?p ([''A''] @ [''M1'', ''M2'']))"
    by simp
  then show ?thesis
    unfolding Let_def using n sel by (simp add: from_radius_packet_def)
qed

text \<open>
  C8, as claimed for both call paths, fails on \<open>radius_proxy\<close>, which does not look at the
  code of the response: on a response with code 11 (neither 2 nor 3) it returns an
  AuthResult.
\<close>

theorem radius_proxy_accepts_any_code:
  "pkt_code \<lparr>pkt_code = 11, pkt_attrs = [(''State'', [''s''])]\<rparr>
      \<notin> {AccessAccept \<lparr>AccessAccept = 2, AccessReject = 3, MS_CHAP2_RESPONSE_ATTRS = []\<rparr>,
          AccessReject \<lparr>AccessAccept = 2, AccessReject = 3, MS_CHAP2_RESPONSE_ATTRS = []\<rparr>}
   \<and> radius_proxy \<lparr>AccessAccept = 2, AccessReject = 3, MS_CHAP2_RESPONSE_ATTRS = []\<rparr>
        \<lparr>pass_through_attr_names = [], pass_through_all = False\<rparr>
        (Inr \<lparr>pkt_code = 11, pkt_attrs = [(''State'', [''s''])]\<rparr>)
      = Inr \<lparr>accepted = False, attributes = [(''State'', [''s''])], rawCode = 11\<rparr>"
  by (simp add: radius_proxy_def from_radius_packet_def)

text \<open>
  C8, amended. On the \<open>authenticate\<close> path, a response of the protocol layer whose code
  is neither Access-Accept nor Access-Reject makes the call raise \<open>PacketError\<close>: no
  AuthResult is built, and \<open>authenticate\<close> does not ask the protocol layer again.
\<close>

theorem authenticate_rejects_other_codes:
  assumes "pkt_code p \<noteq> AccessAccept R" and "pkt_code p \<noteq> AccessReject R"
  shows "authenticate R M (Inr p) = Inl (PacketError (pkt_code p))"
  using assms by (simp add: authenticate_def)

theorem authenticate_rejects_other_codes_witness:
  "(let R = \<lparr>AccessAccept = 2, AccessReject = 3, MS_CHAP2_RESPONSE_ATTRS = []\<rparr>;
        p = \<lparr>pkt_code = 11, pkt_attrs = [(''State'', [''s''])]\<rparr>
    in pkt_code p \<noteq> AccessAccept R \<and> pkt_code p \<noteq> AccessReject R
       \<and> authenticate R \<lparr>pass_through_attr_names = [], pass_through_all = False\<rparr> (Inr p)
            = Inl (PacketError 11))"
proof -
  let ?R = "\<lparr>AccessAccept = 2, AccessReject = 3, MS_CHAP2_RESPONSE_ATTRS = []\<rparr>"
  let ?p = "\<lparr>pkt_code = 11, pkt_attrs = [(''State'', [''s''])]\<rparr>"
  have a: "pkt_code ?p \<noteq> AccessAccept ?R" and b: "pkt_code ?p \<noteq> AccessReject ?R" by simp_all
  from authenticate_rejects_other_codes [OF a b, of "\<lparr>pass_through_attr_names = [], pass_through_all = False\<rparr>"]
  show ?thesis unfolding Let_def by simp
qed

end
